theory Spec2Isabelle
  imports Main
begin

section \<open>Python values and exceptions\<close>

text \<open>
  The controller and the configuration composer handle untyped Python data: what
  \<^verbatim>\<open>json.load\<close> returns, the node dictionaries of the registry, the values of configuration
  entries. A value is \<^verbatim>\<open>None\<close>, a bool, an int, a str, a list or a dict; a dict is kept as
  the list of its items in insertion order, and looked up from the front. Floats are left
  out of the model.
\<close>

datatype py =
    PNone
  | PBool bool
  | PInt int
  | PStr string
  | PList "py list"
  | PDict "(string \<times> py) list"

text \<open>Truthiness, as \<^verbatim>\<open>not v\<close> and \<^verbatim>\<open>if v\<close> test it.\<close>

fun truthy :: "py \<Rightarrow> bool" where
  "truthy PNone = False"
| "truthy (PBool b) = b"
| "truthy (PInt i) = (i \<noteq> 0)"
| "truthy (PStr s) = (s \<noteq> [])"
| "truthy (PList xs) = (xs \<noteq> [])"
| "truthy (PDict kvs) = (kvs \<noteq> [])"

text \<open>
  Exceptions, by the classes the handlers tell apart: \<^verbatim>\<open>HTTPException\<close> (a subclass of
  \<^verbatim>\<open>Exception\<close>) with its status code and detail, \<^verbatim>\<open>ValueError\<close> with its message, and
  the other subclasses of \<^verbatim>\<open>Exception\<close> that the modelled code can raise.
\<close>

datatype exn =
    HTTPException nat string
  | ValueError string
  | KeyError string
  | TypeError string
  | AttributeError string
  | OtherError string

definition internal_server_error :: exn where
  "internal_server_error = HTTPException 500 ''Internal Server Error''"

section \<open>The node catalog file: \<^verbatim>\<open>get_node_list\<close> and \<^verbatim>\<open>GET /node/get\<close>\<close>

text \<open>
  What \<^verbatim>\<open>get_node_list\<close> sees of the file system is the state of
  \<^verbatim>\<open>./constants/exported_nodes.json\<close>: the path does not exist (\<open>None\<close>), opening or
  parsing it raises (\<open>Some (Inl e)\<close>), or \<^verbatim>\<open>json.load\<close> returns a value.
\<close>

type_synonym catalog_file = "(exn + py) option"

definition no_nodes_available :: exn where
  "no_nodes_available = HTTPException 404 ''No nodes available. Please run discovery first.''"

text \<open>The body of the \<^verbatim>\<open>try\<close> block of \<^verbatim>\<open>get_node_list\<close>.\<close>

definition get_node_list_try :: "catalog_file \<Rightarrow> exn + py" where
  "get_node_list_try f =
     (case f of
        None \<Rightarrow> Inl no_nodes_available
      | Some (Inl e) \<Rightarrow> Inl e
      | Some (Inr nodes) \<Rightarrow> if \<not> truthy nodes then Inl no_nodes_available else Inr nodes)"

text \<open>\<^verbatim>\<open>except Exception\<close> catches every exception of the block, the 404 included.\<close>

definition get_node_list :: "catalog_file \<Rightarrow> exn + py" where
  "get_node_list f =
     (case get_node_list_try f of
        Inl e \<Rightarrow> Inl internal_server_error
      | Inr nodes \<Rightarrow> Inr nodes)"

text \<open>\<^verbatim>\<open>list_nodes\<close> re-raises an \<^verbatim>\<open>HTTPException\<close> and turns anything else into a 500.\<close>

definition list_nodes :: "catalog_file \<Rightarrow> exn + py" where
  "list_nodes f =
     (case get_node_list f of
        Inr nodes \<Rightarrow> Inr nodes
      | Inl (HTTPException c d) \<Rightarrow> Inl (HTTPException c d)
      | Inl e \<Rightarrow> Inl internal_server_error)"

section \<open>The configuration composer: \<^verbatim>\<open>validate_critical_configs\<close>\<close>

text \<open>
  A configuration category is an object whose attributes are persistent configuration
  entries; the map gives, for each attribute the object has (\<^verbatim>\<open>hasattr\<close>), the
  \<^verbatim>\<open>.value\<close> of the entry. \<^verbatim>\<open>config_categories\<close> maps the discovered category names
  to these objects.
\<close>

type_synonym config_instance = "string \<rightharpoonup> py"

record ConfigComposer =
  config_categories :: "string \<rightharpoonup> config_instance"
  all_configs :: "string \<rightharpoonup> py"

record validation_results =
  valid :: bool
  warnings :: "string list"
  errors :: "string list"

text \<open>Decimal rendering of an int, as an f-string prints it.\<close>

definition digit_char :: "nat \<Rightarrow> char" where
  "digit_char d = ''0123456789'' ! d"

fun str_nat :: "nat \<Rightarrow> string" where
  "str_nat n =
     (if n < 10 then [digit_char n]
      else str_nat (n div 10) @ [digit_char (n mod 10)])"

declare str_nat.simps [simp del]

definition str_int :: "int \<Rightarrow> string" where
  "str_int i = (if i < 0 then CHR ''-'' # str_nat (nat (- i)) else str_nat (nat i))"

text \<open>
  A value as the comparison with an int sees it: an int, or a bool (a subclass of int);
  any other value makes the comparison raise \<^verbatim>\<open>TypeError\<close>. \<open>py_format\<close> is what the
  f-string prints for such a value.
\<close>

fun py_number :: "py \<Rightarrow> int option" where
  "py_number (PInt i) = Some i"
| "py_number (PBool b) = Some (if b then 1 else 0)"
| "py_number v = None"

fun py_format :: "py \<Rightarrow> string" where
  "py_format (PBool b) = (if b then ''True'' else ''False'')"
| "py_format (PInt i) = str_int i"
| "py_format (PStr s) = s"
| "py_format v = ''None''"

text \<open>
  A str is kept as the bytes of its UTF-8 encoding; its characters are the code points
  that the bytes encode. A lead byte is followed by one, two or three continuation
  bytes; a byte that begins no well-formed sequence stands for the code point of its own
  value.
\<close>

definition is_continuation :: "nat \<Rightarrow> bool" where
  "is_continuation b = (128 \<le> b \<and> b < 192)"

definition continuation_count :: "nat \<Rightarrow> nat list \<Rightarrow> nat" where
  "continuation_count b bs =
     (if 192 \<le> b \<and> b < 224 \<and> 1 \<le> length bs \<and> list_all is_continuation (take 1 bs) then 1
      else if 224 \<le> b \<and> b < 240 \<and> 2 \<le> length bs \<and> list_all is_continuation (take 2 bs) then 2
      else if 240 \<le> b \<and> b < 248 \<and> 3 \<le> length bs \<and> list_all is_continuation (take 3 bs) then 3
      else 0)"

definition code_point :: "nat \<Rightarrow> nat list \<Rightarrow> nat" where
  "code_point b cs =
     fold (\<lambda>c v. v * 64 + (c - 128)) cs
       (if cs = [] then b
        else if length cs = 1 then b - 192
        else if length cs = 2 then b - 224
        else b - 240)"

fun utf8_decode :: "nat list \<Rightarrow> nat list" where
  "utf8_decode [] = []"
| "utf8_decode (b # bs) =
     code_point b (take (continuation_count b bs) bs)
       # utf8_decode (drop (continuation_count b bs) bs)"

definition code_points :: "string \<Rightarrow> nat list" where
  "code_points s = utf8_decode (map of_char s)"

text \<open>
  \<^verbatim>\<open>str.strip()\<close> removes the leading and the trailing whitespace characters. The
  whitespace characters of a str are the code points U+0009 to U+000D, U+001C to U+0020,
  U+0085, U+00A0, U+1680, U+2000 to U+200A, U+2028, U+2029, U+202F, U+205F and U+3000.
\<close>

definition py_isspace :: "nat \<Rightarrow> bool" where
  "py_isspace c =
     ((9 \<le> c \<and> c \<le> 13) \<or> (28 \<le> c \<and> c \<le> 32) \<or> c = 133 \<or> c = 160 \<or> c = 5760
      \<or> (8192 \<le> c \<and> c \<le> 8202) \<or> c = 8232 \<or> c = 8233 \<or> c = 8239 \<or> c = 8287
      \<or> c = 12288)"

definition py_strip :: "nat list \<Rightarrow> nat list" where
  "py_strip cs = rev (dropWhile py_isspace (rev (dropWhile py_isspace cs)))"

definition config_value :: "ConfigComposer \<Rightarrow> string \<Rightarrow> string \<Rightarrow> py option" where
  "config_value c category attr =
     (case config_categories c category of
        None \<Rightarrow> None
      | Some config \<Rightarrow> config attr)"

definition add_warning :: "string \<Rightarrow> validation_results \<Rightarrow> validation_results" where
  "add_warning w r = r\<lparr>warnings := warnings r @ [w]\<rparr>"

definition add_error :: "string \<Rightarrow> validation_results \<Rightarrow> validation_results" where
  "add_error e r = r\<lparr>errors := errors r @ [e], valid := False\<rparr>"

text \<open>The three checks, in the order of the source; each works on the results so far.\<close>

definition check_api_key :: "ConfigComposer \<Rightarrow> validation_results \<Rightarrow> exn + validation_results" where
  "check_api_key c r =
     (case config_value c ''openai'' ''API_KEY'' of
        None \<Rightarrow> Inr r
      | Some api_key \<Rightarrow>
          if \<not> truthy api_key then Inr (add_warning ''OpenAI API key is not configured'' r)
          else (case api_key of
                  PStr s \<Rightarrow>
                    if py_strip (code_points s) = []
                    then Inr (add_warning ''OpenAI API key is not configured'' r)
                    else Inr r
                | _ \<Rightarrow> Inl (AttributeError ''strip'')))"

definition check_port :: "ConfigComposer \<Rightarrow> validation_results \<Rightarrow> exn + validation_results" where
  "check_port c r =
     (case config_value c ''app'' ''PORT'' of
        None \<Rightarrow> Inr r
      | Some port \<Rightarrow>
          (case py_number port of
             None \<Rightarrow> Inl (TypeError ''<='')
           | Some p \<Rightarrow>
               if \<not> (1 \<le> p \<and> p \<le> 65535)
               then Inr (add_error (''Invalid port number: '' @ py_format port) r)
               else Inr r))"

definition check_timeout :: "ConfigComposer \<Rightarrow> validation_results \<Rightarrow> exn + validation_results" where
  "check_timeout c r =
     (case config_value c ''workflow'' ''EXECUTION_TIMEOUT'' of
        None \<Rightarrow> Inr r
      | Some workflow_timeout \<Rightarrow>
          (case py_number workflow_timeout of
             None \<Rightarrow> Inl (TypeError ''<='')
           | Some t \<Rightarrow>
               if t \<le> 0
               then Inr (add_error (''Invalid workflow timeout: '' @ py_format workflow_timeout) r)
               else Inr r))"

definition validate_critical_configs :: "ConfigComposer \<Rightarrow> exn + validation_results" where
  "validate_critical_configs c =
     (case check_api_key c \<lparr>valid = True, warnings = [], errors = []\<rparr> of
        Inl e \<Rightarrow> Inl e
      | Inr r1 \<Rightarrow>
          (case check_port c r1 of
             Inl e \<Rightarrow> Inl e
           | Inr r2 \<Rightarrow> check_timeout c r2))"

text \<open>
  The states on which no check raises: the API key, when there is one, is a str or a
  falsy value, and the port and the timeout, when there are any, are numbers.
\<close>

definition api_key_blank :: "ConfigComposer \<Rightarrow> bool" where
  "api_key_blank c =
     (case config_value c ''openai'' ''API_KEY'' of
        None \<Rightarrow> False
      | Some (PStr s) \<Rightarrow> py_strip (code_points s) = []
      | Some v \<Rightarrow> \<not> truthy v)"

definition port_invalid :: "ConfigComposer \<Rightarrow> bool" where
  "port_invalid c =
     (case config_value c ''app'' ''PORT'' of
        None \<Rightarrow> False
      | Some port \<Rightarrow> (case py_number port of None \<Rightarrow> False | Some p \<Rightarrow> \<not> (1 \<le> p \<and> p \<le> 65535)))"

definition timeout_invalid :: "ConfigComposer \<Rightarrow> bool" where
  "timeout_invalid c =
     (case config_value c ''workflow'' ''EXECUTION_TIMEOUT'' of
        None \<Rightarrow> False
      | Some t \<Rightarrow> (case py_number t of None \<Rightarrow> False | Some n \<Rightarrow> n \<le> 0))"

definition well_typed_configs :: "ConfigComposer \<Rightarrow> bool" where
  "well_typed_configs c =
     ((case config_value c ''openai'' ''API_KEY'' of
         None \<Rightarrow> True
       | Some (PStr s) \<Rightarrow> True
       | Some v \<Rightarrow> \<not> truthy v)
      \<and> (case config_value c ''app'' ''PORT'' of
           None \<Rightarrow> True
         | Some port \<Rightarrow> py_number port \<noteq> None)
      \<and> (case config_value c ''workflow'' ''EXECUTION_TIMEOUT'' of
           None \<Rightarrow> True
         | Some t \<Rightarrow> py_number t \<noteq> None))"

text \<open>
  A composer state for the examples: a blank API key, port 70000 and a timeout of 300.
\<close>

definition example_composer :: ConfigComposer where
  "example_composer =
     \<lparr>config_categories =
        [''openai'' \<mapsto> [''API_KEY'' \<mapsto> PStr '' ''],
         ''app'' \<mapsto> [''PORT'' \<mapsto> PInt 70000],
         ''workflow'' \<mapsto> [''EXECUTION_TIMEOUT'' \<mapsto> PInt 300]],
      all_configs = Map.empty\<rparr>"

text \<open>A second one: an API key, port 8000 and a timeout of 0.\<close>

definition example_composer_timeout :: ConfigComposer where
  "example_composer_timeout =
     \<lparr>config_categories =
        [''openai'' \<mapsto> [''API_KEY'' \<mapsto> PStr ''sk-1''],
         ''app'' \<mapsto> [''PORT'' \<mapsto> PInt 8000],
         ''workflow'' \<mapsto> [''EXECUTION_TIMEOUT'' \<mapsto> PInt 0]],
      all_configs = Map.empty\<rparr>"

text \<open>A third one: an API key that is one NO-BREAK SPACE, port 8000 and a timeout of 300.\<close>

definition example_composer_nbsp :: ConfigComposer where
  "example_composer_nbsp =
     \<lparr>config_categories =
        [''openai'' \<mapsto> [''API_KEY'' \<mapsto> PStr [CHR 0xC2, CHR 0xA0]],
         ''app'' \<mapsto> [''PORT'' \<mapsto> PInt 8000],
         ''workflow'' \<mapsto> [''EXECUTION_TIMEOUT'' \<mapsto> PInt 300]],
      all_configs = Map.empty\<rparr>"

section \<open>Dictionaries and iteration, as the controller uses them\<close>

text \<open>
  \<^verbatim>\<open>v[k]\<close> with a str key: a dict gives the value or raises \<^verbatim>\<open>KeyError\<close>; the other
  values raise \<^verbatim>\<open>TypeError\<close>.
\<close>

fun py_getitem :: "py \<Rightarrow> string \<Rightarrow> exn + py" where
  "py_getitem (PDict kvs) k = (case map_of kvs k of None \<Rightarrow> Inl (KeyError k) | Some v \<Rightarrow> Inr v)"
| "py_getitem v k = Inl (TypeError ''subscript'')"

text \<open>\<^verbatim>\<open>v.get(k, default)\<close>: only a dict has the method.\<close>

fun py_get :: "py \<Rightarrow> string \<Rightarrow> py \<Rightarrow> exn + py" where
  "py_get (PDict kvs) k d = Inr (case map_of kvs k of None \<Rightarrow> d | Some v \<Rightarrow> v)"
| "py_get v k d = Inl (AttributeError ''get'')"

text \<open>
  \<^verbatim>\<open>for x in v\<close>: a list gives its elements, a dict its keys, a str its characters; the
  other values are not iterable.
\<close>

fun py_iter :: "py \<Rightarrow> exn + py list" where
  "py_iter (PList xs) = Inr xs"
| "py_iter (PDict kvs) = Inr (map (\<lambda>kv. PStr (fst kv)) kvs)"
| "py_iter (PStr s) = Inr (map (\<lambda>c. PStr [c]) s)"
| "py_iter v = Inl (TypeError ''iter'')"

fun is_dict :: "py \<Rightarrow> bool" where
  "is_dict (PDict kvs) = True"
| "is_dict v = False"

section \<open>The workflow endpoint: \<^verbatim>\<open>POST /node/execute\<close>\<close>

text \<open>
  The request model \<^verbatim>\<open>Workflow\<close> declares three fields, none with a default:
  \<^verbatim>\<open>nodes: List[Dict[str, Any]]\<close>, \<^verbatim>\<open>edges: List[Dict[str, Any]]\<close> and
  \<^verbatim>\<open>view: Dict[str, Any]\<close>.
\<close>

record Workflow =
  nodes :: "py list"
  edges :: "py list"
  view :: "(string \<times> py) list"

datatype field_error = Missing string | WrongType string

text \<open>
  Validation of a request body against the model: every declared field has to be there
  with its declared type; keys the model does not declare are ignored. The errors of all
  fields are collected, in the order of the declarations.
\<close>

definition list_of_dicts_field :: "(string \<times> py) list \<Rightarrow> string \<Rightarrow> field_error list" where
  "list_of_dicts_field body name =
     (case map_of body name of
        None \<Rightarrow> [Missing name]
      | Some (PList xs) \<Rightarrow> if list_all is_dict xs then [] else [WrongType name]
      | Some v \<Rightarrow> [WrongType name])"

definition dict_field :: "(string \<times> py) list \<Rightarrow> string \<Rightarrow> field_error list" where
  "dict_field body name =
     (case map_of body name of
        None \<Rightarrow> [Missing name]
      | Some (PDict kvs) \<Rightarrow> []
      | Some v \<Rightarrow> [WrongType name])"

fun the_list :: "py option \<Rightarrow> py list" where
  "the_list (Some (PList xs)) = xs"
| "the_list v = []"

fun the_dict :: "py option \<Rightarrow> (string \<times> py) list" where
  "the_dict (Some (PDict kvs)) = kvs"
| "the_dict v = []"

definition Workflow_validate :: "py \<Rightarrow> field_error list + Workflow" where
  "Workflow_validate body =
     (case body of
        PDict kvs \<Rightarrow>
          (let errs = list_of_dicts_field kvs ''nodes'' @ list_of_dicts_field kvs ''edges''
                        @ dict_field kvs ''view''
           in if errs \<noteq> [] then Inl errs
              else Inr \<lparr>nodes = the_list (map_of kvs ''nodes''),
                        edges = the_list (map_of kvs ''edges''),
                        view = the_dict (map_of kvs ''view'')\<rparr>)
      | _ \<Rightarrow> Inl [WrongType ''body''])"

text \<open>\<^verbatim>\<open>workflow.dict()\<close>: the fields of the model, in the order of their declaration.\<close>

definition Workflow_dict :: "Workflow \<Rightarrow> py" where
  "Workflow_dict w =
     PDict [(''nodes'', PList (nodes w)), (''edges'', PList (edges w)), (''view'', PDict (view w))]"

text \<open>
  The message of a successful run, a Korean sentence ("workflow execution completed"),
  as its UTF-8 bytes.
\<close>

definition workflow_done_message :: string where
  "workflow_done_message =
     map (char_of :: nat \<Rightarrow> char)
       [236, 155, 140, 237, 129, 172, 237, 148, 140, 235, 161, 156, 236, 154, 176, 32,
        236, 139, 164, 237, 150, 137, 32, 236, 153, 132, 235, 163, 140]"

text \<open>
  The workflow executor is not part of the controller. The handler builds it from
  \<^verbatim>\<open>workflow.dict()\<close> and calls its \<^verbatim>\<open>execute_workflow\<close>; \<open>executor\<close> stands for the two
  calls together: it returns the final outputs or raises.
\<close>

type_synonym executor = "py \<Rightarrow> exn + py"

definition execute_workflow :: "executor \<Rightarrow> Workflow \<Rightarrow> exn + py" where
  "execute_workflow executor workflow =
     (case executor (Workflow_dict workflow) of
        Inr final_outputs \<Rightarrow>
          Inr (PDict [(''status'', PStr ''success''),
                      (''message'', PStr workflow_done_message),
                      (''outputs'', final_outputs)])
      | Inl (ValueError msg) \<Rightarrow> Inl (HTTPException 400 msg)
      | Inl e \<Rightarrow> Inl internal_server_error)"

text \<open>
  The route: the framework validates the body against the request model before it calls
  the handler, and answers 422 itself when the validation fails.
\<close>

definition unprocessable_entity :: exn where
  "unprocessable_entity = HTTPException 422 ''Unprocessable Entity''"

definition post_node_execute :: "executor \<Rightarrow> py \<Rightarrow> exn + py" where
  "post_node_execute executor body =
     (case Workflow_validate body of
        Inl errs \<Rightarrow> Inl unprocessable_entity
      | Inr workflow \<Rightarrow> execute_workflow executor workflow)"

text \<open>The keys of a dict, and the status class of an HTTP error.\<close>

fun dict_keys :: "py \<Rightarrow> string list" where
  "dict_keys (PDict kvs) = map fst kvs"
| "dict_keys v = []"

fun dict_lookup :: "py \<Rightarrow> string \<Rightarrow> py option" where
  "dict_lookup (PDict kvs) k = map_of kvs k"
| "dict_lookup v k = None"




section \<open>What happens in an execution, and what the handler sees of it\<close>




text \<open>Requests and executions for the examples.\<close>

definition example_nodes :: "py list" where
  "example_nodes =
     [PDict [(''id'', PStr ''A''), (''type'', PStr ''add''),
             (''parameters'', PDict [(''x'', PInt 2), (''y'', PInt 3)])],
      PDict [(''id'', PStr ''B''), (''type'', PStr ''multiply''),
             (''parameters'', PDict [(''y'', PInt 4)])]]"

definition example_edges :: "py list" where
  "example_edges =
     [PDict [(''source'', PStr ''A''), (''sourcePort'', PStr ''out''),
             (''target'', PStr ''B''), (''targetPort'', PStr ''x'')]]"

definition two_field_request :: py where
  "two_field_request = PDict [(''nodes'', PList example_nodes), (''edges'', PList example_edges)]"

definition three_field_request :: py where
  "three_field_request =
     PDict [(''nodes'', PList example_nodes), (''edges'', PList example_edges),
            (''view'', PDict [])]"

definition example_workflow :: Workflow where
  "example_workflow = \<lparr>nodes = example_nodes, edges = example_edges, view = []\<rparr>"

definition example_outputs :: py where
  "example_outputs = PDict [(''B'', PDict [(''out'', PInt 20)])]"

text \<open>An executor that returns the outputs of the example.\<close>

definition example_executor :: executor where
  "example_executor workflow_data = Inr example_outputs"






section \<open>The node registry endpoints\<close>

text \<open>
  The state of the server process that the handlers reach: the module-level
  \<^verbatim>\<open>NODE_REGISTRY\<close> of the node composer (a list of node dictionaries), the module-level
  \<^verbatim>\<open>config_composer\<close> instance, and the exported catalog file.
\<close>

record process =
  NODE_REGISTRY :: "py list"
  config_composer :: ConfigComposer
  exported_nodes :: catalog_file

text \<open>
  \<^verbatim>\<open>get_node_registry\<close> is imported from the node composer and called without
  arguments. The handlers document what it gives them: the node information of the global
  \<^verbatim>\<open>NODE_REGISTRY\<close>, the module-level list that \<^verbatim>\<open>export_nodes\<close> imports by name.
\<close>

definition get_node_registry :: "process \<Rightarrow> py list" where
  "get_node_registry p = NODE_REGISTRY p"

text \<open>
  The two \<^verbatim>\<open>except\<close> clauses that close the handlers: an \<^verbatim>\<open>HTTPException\<close> is raised
  again, any other exception becomes the 500.
\<close>

definition reraise_http :: "exn + py \<Rightarrow> exn + py" where
  "reraise_http r =
     (case r of
        Inr v \<Rightarrow> Inr v
      | Inl (HTTPException c d) \<Rightarrow> Inl (HTTPException c d)
      | Inl e \<Rightarrow> Inl internal_server_error)"

definition node_not_found :: "string \<Rightarrow> exn" where
  "node_not_found node_id =
     HTTPException 404 (''Node with id '' @ [CHR 0x27] @ node_id @ [CHR 0x27] @ '' not found'')"

text \<open>\<^verbatim>\<open>GET /node/registry/nodes\<close>.\<close>

definition get_all_nodes :: "process \<Rightarrow> (exn + py) \<times> process" where
  "get_all_nodes p = (Inr (PList (get_node_registry p)), p)"

text \<open>\<^verbatim>\<open>GET /node/registry/node/{node_id}\<close>: the first node of the registry with the id.\<close>

fun node_by_id_try :: "string \<Rightarrow> py list \<Rightarrow> exn + py" where
  "node_by_id_try node_id [] = Inl (node_not_found node_id)"
| "node_by_id_try node_id (node # rest) =
     (case py_getitem node ''id'' of
        Inl e \<Rightarrow> Inl e
      | Inr i \<Rightarrow> if i = PStr node_id then Inr node else node_by_id_try node_id rest)"

definition get_node_by_id :: "string \<Rightarrow> process \<Rightarrow> (exn + py) \<times> process" where
  "get_node_by_id node_id p = (reraise_http (node_by_id_try node_id (get_node_registry p)), p)"

text \<open>
  \<^verbatim>\<open>GET /node/parameters/categorized/{node_id}\<close>. The inner loop appends each parameter
  to \<open>advanced_params\<close> when its \<open>optional\<close> entry is truthy and to \<open>basic_params\<close>
  otherwise.
\<close>

fun categorize :: "py list \<Rightarrow> py list \<Rightarrow> py list \<Rightarrow> exn + (py list \<times> py list)" where
  "categorize [] basic_params advanced_params = Inr (basic_params, advanced_params)"
| "categorize (param # rest) basic_params advanced_params =
     (case py_get param ''optional'' (PBool False) of
        Inl e \<Rightarrow> Inl e
      | Inr opt \<Rightarrow>
          if truthy opt then categorize rest basic_params (advanced_params @ [param])
          else categorize rest (basic_params @ [param]) advanced_params)"

definition categorized_response :: "string \<Rightarrow> py \<Rightarrow> exn + py" where
  "categorized_response node_id node =
     (case py_get node ''parameters'' (PList []) of
        Inl e \<Rightarrow> Inl e
      | Inr parameters \<Rightarrow>
     (case py_iter parameters of
        Inl e \<Rightarrow> Inl e
      | Inr params \<Rightarrow>
     (case categorize params [] [] of
        Inl e \<Rightarrow> Inl e
      | Inr (basic_params, advanced_params) \<Rightarrow>
     (case py_get node ''nodeName'' (PStr []) of
        Inl e \<Rightarrow> Inl e
      | Inr node_name \<Rightarrow>
     (case py_get node ''description'' (PStr []) of
        Inl e \<Rightarrow> Inl e
      | Inr description \<Rightarrow>
          Inr (PDict [(''node_id'', PStr node_id),
                      (''node_name'', node_name),
                      (''description'', description),
                      (''basic_parameters'', PList basic_params),
                      (''advanced_parameters'', PList advanced_params),
                      (''has_advanced'', PBool (length advanced_params > 0))]))))))"

fun categorized_parameters_try :: "string \<Rightarrow> py list \<Rightarrow> exn + py" where
  "categorized_parameters_try node_id [] = Inl (node_not_found node_id)"
| "categorized_parameters_try node_id (node # rest) =
     (case py_getitem node ''id'' of
        Inl e \<Rightarrow> Inl e
      | Inr i \<Rightarrow>
          if i = PStr node_id then categorized_response node_id node
          else categorized_parameters_try node_id rest)"

definition get_categorized_parameters :: "string \<Rightarrow> process \<Rightarrow> (exn + py) \<times> process" where
  "get_categorized_parameters node_id p =
     (reraise_http (categorized_parameters_try node_id (get_node_registry p)), p)"

text \<open>
  \<^verbatim>\<open>GET /node/export\<close>. \<^verbatim>\<open>run_discovery\<close> and \<^verbatim>\<open>generate_json_spec\<close> belong to the node
  composer; they are parameters here, each working on the process state and returning or
  raising. Every exception of the block, the handler's own \<^verbatim>\<open>HTTPException\<close> included,
  is caught by \<^verbatim>\<open>except Exception\<close>.
\<close>

type_synonym effect = "process \<Rightarrow> (exn + unit) \<times> process"

definition export_nodes :: "effect \<Rightarrow> effect \<Rightarrow> process \<Rightarrow> (exn + py) \<times> process" where
  "export_nodes run_discovery generate_json_spec p =
     (case run_discovery p of
        (Inl e, p1) \<Rightarrow> (Inl internal_server_error, p1)
      | (Inr u, p1) \<Rightarrow>
          (case generate_json_spec p1 of
             (Inl e, p2) \<Rightarrow> (Inl internal_server_error, p2)
           | (Inr u', p2) \<Rightarrow>
               if exported_nodes p2 = None then (Inl internal_server_error, p2)
               else (Inr (PDict [(''status'', PStr ''success''),
                                 (''message'', PStr ''Nodes exported successfully''),
                                 (''file'', PStr ''./constants/exported_nodes.json'')]), p2)))"

text \<open>
  \<^verbatim>\<open>POST /node/execute\<close> in the process. The executor is built from
  \<^verbatim>\<open>workflow.dict()\<close> and runs in the server process, so what it returns may depend on
  the process state and it may leave another state behind. The handler gives it the
  dictionary of the request and nothing else, classifies what it returns or raises, and
  has no variable that outlives the call.
\<close>

type_synonym process_executor = "py \<Rightarrow> process \<Rightarrow> (exn + py) \<times> process"

definition execute_workflow_in :: "process_executor \<Rightarrow> Workflow \<Rightarrow> process \<Rightarrow> (exn + py) \<times> process" where
  "execute_workflow_in executor workflow p =
     (execute_workflow (\<lambda>workflow_data. fst (executor workflow_data p)) workflow,
      snd (executor (Workflow_dict workflow) p))"

text \<open>
  The requests that the node controller serves, and the server process serving one
  request and then a history of requests, each from the state that the one before it has
  left. A body that the request model refuses is answered by the framework, before any
  handler runs.
\<close>

datatype request =
    Execute py
  | ListNodes
  | ExportNodes
  | AllNodes
  | NodeById string
  | CategorizedParameters string

definition serve ::
  "process_executor \<Rightarrow> effect \<Rightarrow> effect \<Rightarrow> request \<Rightarrow> process \<Rightarrow> (exn + py) \<times> process" where
  "serve executor run_discovery generate_json_spec req p =
     (case req of
        Execute body \<Rightarrow>
          (case Workflow_validate body of
             Inl errs \<Rightarrow> (Inl unprocessable_entity, p)
           | Inr workflow \<Rightarrow> execute_workflow_in executor workflow p)
      | ListNodes \<Rightarrow> (list_nodes (exported_nodes p), p)
      | ExportNodes \<Rightarrow> export_nodes run_discovery generate_json_spec p
      | AllNodes \<Rightarrow> get_all_nodes p
      | NodeById node_id \<Rightarrow> get_node_by_id node_id p
      | CategorizedParameters node_id \<Rightarrow> get_categorized_parameters node_id p)"

fun serve_all ::
  "process_executor \<Rightarrow> effect \<Rightarrow> effect \<Rightarrow> request list \<Rightarrow> process
     \<Rightarrow> (exn + py) list \<times> process" where
  "serve_all executor run_discovery generate_json_spec [] p = ([], p)"
| "serve_all executor run_discovery generate_json_spec (req # rest) p =
     (case serve executor run_discovery generate_json_spec req p of
        (response, p1) \<Rightarrow>
          (case serve_all executor run_discovery generate_json_spec rest p1 of
             (responses, p2) \<Rightarrow> (response # responses, p2)))"

text \<open>
  What the categorized-parameters endpoint is to compute: the parameters a node declares,
  whether a parameter is marked optional, and the nodes on which no step of the handler
  raises (a dictionary with an \<open>id\<close>, whose \<open>parameters\<close>, when there are any, are a list of
  dictionaries).
\<close>

definition declared_parameters :: "py \<Rightarrow> py list" where
  "declared_parameters node =
     (case py_get node ''parameters'' (PList []) of
        Inr (PList ps) \<Rightarrow> ps
      | _ \<Rightarrow> [])"

definition is_optional :: "py \<Rightarrow> bool" where
  "is_optional param =
     (case py_get param ''optional'' (PBool False) of
        Inr opt \<Rightarrow> truthy opt
      | Inl e \<Rightarrow> False)"

definition has_id :: "string \<Rightarrow> py \<Rightarrow> bool" where
  "has_id node_id node = (py_getitem node ''id'' = Inr (PStr node_id))"

definition field_or :: "py \<Rightarrow> string \<Rightarrow> py \<Rightarrow> py" where
  "field_or node k d = (case py_get node k d of Inr v \<Rightarrow> v | Inl e \<Rightarrow> d)"

definition well_formed_node :: "py \<Rightarrow> bool" where
  "well_formed_node node =
     (case node of
        PDict kvs \<Rightarrow>
          map_of kvs ''id'' \<noteq> None
          \<and> (case map_of kvs ''parameters'' of
               None \<Rightarrow> True
             | Some (PList ps) \<Rightarrow> list_all is_dict ps
             | Some v \<Rightarrow> False)
      | _ \<Rightarrow> False)"

text \<open>Process states for the examples.\<close>

definition example_registry :: "py list" where
  "example_registry =
     [PDict [(''id'', PStr ''input''), (''nodeName'', PStr ''Input'')],
      PDict [(''id'', PStr ''chat''), (''nodeName'', PStr ''Chat''),
             (''description'', PStr ''chat model''),
             (''parameters'',
                PList [PDict [(''id'', PStr ''model''), (''optional'', PBool False)],
                       PDict [(''id'', PStr ''temperature''), (''optional'', PBool True)],
                       PDict [(''id'', PStr ''prompt'')],
                       PDict [(''id'', PStr ''top_p''), (''optional'', PBool True)]])]]"

definition empty_process :: process where
  "empty_process =
     \<lparr>NODE_REGISTRY = [], config_composer = example_composer, exported_nodes = None\<rparr>"

definition example_process :: process where
  "example_process = empty_process\<lparr>NODE_REGISTRY := example_registry\<rparr>"




section \<open>The workflow graph\<close>

text \<open>
  Modelled from the spec: the workflow executor (\<^verbatim>\<open>src/workflow_executor\<close>) is not among
  the sources at hand, so the graph, the dependency scheduler and the execution engine
  follow the words of the design. A node instance has an id, unique within the graph, the
  id of its node type and its literal parameters; an edge says that the input
  \<open>target_port\<close> of the target instance is supplied by the output \<open>source_port\<close> of the
  source instance.
\<close>

record node_instance =
  instance_id :: string
  type_id :: string
  parameters :: "(string \<times> py) list"

text \<open>
  Modelled from the spec: an edge of the graph, from an output port of the source instance to an
  input port of the target instance.
\<close>

record edge =
  source_instance_id :: string
  source_port :: string
  target_instance_id :: string
  target_port :: string

text \<open>
  Modelled from the spec: the workflow graph of one execution request, its node instances and
  its edges.
\<close>

record workflow_graph =
  graph_nodes :: "node_instance list"
  graph_edges :: "edge list"

text \<open>
  Modelled from the spec: the instance ids of the graph, in the order of its nodes.
\<close>

definition instance_ids :: "workflow_graph \<Rightarrow> string list" where
  "instance_ids g = map instance_id (graph_nodes g)"

text \<open>
  Modelled from the spec: the dependency relation, \<open>(s, t)\<close> when an edge makes the instance
  \<open>t\<close> depend on \<open>s\<close>.
\<close>

definition dependency :: "edge list \<Rightarrow> (string \<times> string) set" where
  "dependency es = set (map (\<lambda>e. (source_instance_id e, target_instance_id e)) es)"

text \<open>
  Modelled from the spec: the invariant of an edge, both endpoints are instances of the
  same graph. That the graph has no cycle is what the scheduler finds out.
\<close>

definition endpoints_resolve :: "workflow_graph \<Rightarrow> bool" where
  "endpoints_resolve g =
     list_all (\<lambda>e. source_instance_id e \<in> set (instance_ids g)
                  \<and> target_instance_id e \<in> set (instance_ids g)) (graph_edges g)"

text \<open>
  Modelled from the spec: the graph is well formed when its instance ids are unique and every
  edge endpoint resolves.
\<close>

definition well_formed_graph :: "workflow_graph \<Rightarrow> bool" where
  "well_formed_graph g = (distinct (instance_ids g) \<and> endpoints_resolve g)"

section \<open>The dependency scheduler\<close>

text \<open>
  Modelled from the spec: the errors of an execution. \<open>UnknownNodeType\<close>, \<open>DanglingEdge\<close>,
  \<open>MissingParameter\<close>, \<open>ConflictingParameter\<close> and \<open>CycleError\<close> are found before the
  execution begins; \<open>InternalError\<close> is anything unexpected from the engine itself.
\<close>

datatype workflow_error =
    UnknownNodeType string string
  | DanglingEdge string string
  | MissingParameter string string
  | ConflictingParameter string string
  | CycleError "string list"
  | InternalError string

text \<open>
  Modelled from the spec: the scheduler is the reduction by in-degrees. The in-degree of
  an instance counts the edges that enter it.
\<close>

definition in_degree :: "edge list \<Rightarrow> string \<Rightarrow> nat" where
  "in_degree es n = length (filter (\<lambda>e. target_instance_id e = n) es)"

text \<open>
  Modelled from the spec: removing a batch decrements the in-degree count of the target of
  every edge that leaves an instance of the batch.
\<close>

definition decrement_dependents :: "edge list \<Rightarrow> string list \<Rightarrow> (string \<Rightarrow> nat) \<Rightarrow> string \<Rightarrow> nat" where
  "decrement_dependents es batch deg =
     fold (\<lambda>e d. if source_instance_id e \<in> set batch
                  then d(target_instance_id e := d (target_instance_id e) - 1)
                  else d) es deg"

text \<open>
  Modelled from the spec: the instances with no unresolved dependency, those whose count is
  zero; they form the next batch.
\<close>

definition ready :: "(string \<Rightarrow> nat) \<Rightarrow> string list \<Rightarrow> string list" where
  "ready deg remaining = filter (\<lambda>n. deg n = 0) remaining"

text \<open>
  Modelled from the spec: the instances that remain after the batch is removed.
\<close>

definition waiting :: "(string \<Rightarrow> nat) \<Rightarrow> string list \<Rightarrow> string list" where
  "waiting deg remaining = filter (\<lambda>n. deg n \<noteq> 0) remaining"

lemma waiting_shorter:
  assumes "ready deg remaining \<noteq> []"
  shows "length (waiting deg remaining) < length remaining"
proof -
  have s: "length (filter (\<lambda>n. deg n = 0) remaining)
          + length (filter (\<lambda>n. \<not> deg n = 0) remaining) = length remaining"
    by (rule sum_length_filter_compl)
  from assms have "0 < length (filter (\<lambda>n. deg n = 0) remaining)"
    unfolding ready_def by (rule length_greater_0_conv [THEN iffD2])
  with s show ?thesis
    unfolding waiting_def by linarith
qed

text \<open>
  Modelled from the spec: the reduction, on the edges, the current counts and the instances that
  remain. No instance left: no further batch. No instance ready: \<open>CycleError\<close> naming the
  instances that remain. Otherwise the ready instances are the next batch, and the reduction
  goes on with the decremented counts and the waiting instances.
\<close>

function kahn :: "edge list \<Rightarrow> (string \<Rightarrow> nat) \<Rightarrow> string list \<Rightarrow> workflow_error + string list list" where
  "kahn es deg remaining =
     (if remaining = [] then Inr []
      else if ready deg remaining = [] then Inl (CycleError remaining)
      else (case kahn es (decrement_dependents es (ready deg remaining) deg) (waiting deg remaining) of
              Inl err \<Rightarrow> Inl err
            | Inr batches \<Rightarrow> Inr (ready deg remaining # batches)))"
  by pat_completeness auto
termination
  by (relation "measure (\<lambda>(es, deg, remaining). length remaining)") (auto simp: waiting_shorter)

declare kahn.simps [simp del]

text \<open>
  Modelled from the spec: \<open>order(graph)\<close>, the reduction started with the in-degrees of all
  instances of the graph.
\<close>

definition order :: "workflow_graph \<Rightarrow> workflow_error + string list list" where
  "order g = kahn (graph_edges g) (in_degree (graph_edges g)) (instance_ids g)"

text \<open>Modelled from the spec: the index of the batch that holds an instance.\<close>

fun batch_index :: "string list list \<Rightarrow> string \<Rightarrow> nat" where
  "batch_index [] x = 0"
| "batch_index (b # bs) x = (if x \<in> set b then 0 else Suc (batch_index bs x))"

text \<open>
  The count that the scheduler keeps for an instance, said without the bookkeeping: the
  edges that enter it from an instance not yet scheduled.
\<close>

definition pending_in_degree :: "edge list \<Rightarrow> string set \<Rightarrow> string \<Rightarrow> nat" where
  "pending_in_degree es scheduled n =
     length (filter (\<lambda>e. target_instance_id e = n \<and> source_instance_id e \<notin> scheduled) es)"

text \<open>
  A list of instances in which every instance comes after the sources of all edges that
  enter it, \<open>before\<close> being the instances that came before the list.
\<close>

fun sources_first :: "edge list \<Rightarrow> string list \<Rightarrow> string list \<Rightarrow> bool" where
  "sources_first es before [] = True"
| "sources_first es before (x # xs) =
     (x \<notin> set before
      \<and> list_all (\<lambda>e. target_instance_id e = x \<longrightarrow> source_instance_id e \<in> set before) es
      \<and> sources_first es (before @ [x]) xs)"

section \<open>The execution engine\<close>

text \<open>
  Modelled from the spec: a node descriptor carries the parameter list of a node type and
  its execution function, which returns the outputs by port name or fails with an error;
  the registry resolves a type id to its descriptor or to nothing.
\<close>

record parameter_spec =
  name :: string
  required :: bool
  default_value :: "py option"
  type_kind :: string

text \<open>
  Modelled from the spec: the descriptor of a node type, its parameter list and its execution
  function.
\<close>

record descriptor =
  params :: "parameter_spec list"
  execute :: "(string \<times> py) list \<Rightarrow> string + (string \<times> py) list"

text \<open>
  Modelled from the spec: the lookup capability of the node registry, \<open>resolve(type_id)\<close>.
\<close>

type_synonym registry = "string \<Rightarrow> descriptor option"

text \<open>
  Modelled from the spec: the status of an execution result.
\<close>

datatype exec_status = Success | Failed string

text \<open>
  Modelled from the spec: the execution result of an instance, its outputs by port name and its
  status.
\<close>

record execution_result =
  outputs :: "(string \<times> py) list"
  status :: exec_status

text \<open>
  Modelled from the spec: the state of a run is the mapping \<open>results\<close> from instance ids
  to execution results, initially empty, and the instances marked as skipped. Two more
  fields are the record of the run that the properties speak about: \<open>invocations\<close> has
  one entry, the instance id with the inputs it was given, for each call of an execution
  function, and \<open>engine_runs\<close> counts the calls of the engine's \<open>run\<close>.
\<close>

record engine_state =
  results :: "string \<rightharpoonup> execution_result"
  skipped :: "string set"
  invocations :: "(string \<times> (string \<times> py) list) list"
  engine_runs :: nat

text \<open>
  Modelled from the spec: before the engine is called there is no result, no skipped instance,
  no invocation and no run of the engine.
\<close>

definition initial_state :: engine_state where
  "initial_state = \<lparr>results = Map.empty, skipped = {}, invocations = [], engine_runs = 0\<rparr>"

text \<open>
  Modelled from the spec: the instance of the graph with a given id.
\<close>

definition find_instance :: "workflow_graph \<Rightarrow> string \<Rightarrow> node_instance option" where
  "find_instance g i = find (\<lambda>n. instance_id n = i) (graph_nodes g)"

text \<open>
  Modelled from the spec: the inputs of an instance. A declared parameter that has a
  literal takes it; one supplied by an edge reads \<open>results[source].outputs[source_port]\<close>;
  one with neither takes the default of its specification, if there is one.
\<close>

definition supplying_edge :: "workflow_graph \<Rightarrow> node_instance \<Rightarrow> string \<Rightarrow> edge option" where
  "supplying_edge g n p =
     find (\<lambda>e. target_instance_id e = instance_id n \<and> target_port e = p) (graph_edges g)"

text \<open>
  Modelled from the spec: \<open>results[source_instance_id].outputs[source_port]\<close>, the value an
  edge carries; nothing when the source has no result or no such port.
\<close>

definition read_output :: "(string \<rightharpoonup> execution_result) \<Rightarrow> edge \<Rightarrow> py option" where
  "read_output res e =
     (case res (source_instance_id e) of
        None \<Rightarrow> None
      | Some r \<Rightarrow> map_of (outputs r) (source_port e))"

text \<open>
  Modelled from the spec: the value of one declared parameter: the literal, else the value
  read over the supplying edge, else the default.
\<close>

definition resolve_parameter ::
  "workflow_graph \<Rightarrow> (string \<rightharpoonup> execution_result) \<Rightarrow> node_instance \<Rightarrow> parameter_spec \<Rightarrow> py option" where
  "resolve_parameter g res n ps =
     (case map_of (parameters n) (name ps) of
        Some literal \<Rightarrow> Some literal
      | None \<Rightarrow>
          (case supplying_edge g n (name ps) of
             Some e \<Rightarrow> read_output res e
           | None \<Rightarrow> default_value ps))"

text \<open>
  Modelled from the spec: the resolved values of a list of declared parameters, by name.
\<close>

fun resolve_all ::
  "workflow_graph \<Rightarrow> (string \<rightharpoonup> execution_result) \<Rightarrow> node_instance \<Rightarrow> parameter_spec list
     \<Rightarrow> (string \<times> py) list" where
  "resolve_all g res n [] = []"
| "resolve_all g res n (ps # rest) =
     (case resolve_parameter g res n ps of
        None \<Rightarrow> resolve_all g res n rest
      | Some v \<Rightarrow> (name ps, v) # resolve_all g res n rest)"

text \<open>
  Modelled from the spec: the inputs of an instance, resolved for the parameters its descriptor
  declares.
\<close>

definition resolve_inputs ::
  "workflow_graph \<Rightarrow> (string \<rightharpoonup> execution_result) \<Rightarrow> descriptor \<Rightarrow> node_instance
     \<Rightarrow> (string \<times> py) list" where
  "resolve_inputs g res d n = resolve_all g res n (params d)"

text \<open>
  Modelled from the spec: the instances that transitively depend on an instance, by
  reachability over the edges.
\<close>

definition descendants :: "workflow_graph \<Rightarrow> string \<Rightarrow> string set" where
  "descendants g x = (dependency (graph_edges g))\<^sup>+ `` {x}"

text \<open>
  Modelled from the spec: the step of the engine for one instance. A skipped instance is
  never invoked and gets no result. Otherwise the execution function of the descriptor is
  invoked with the resolved inputs; on success its outputs are stored with \<open>Success\<close>, on
  failure empty outputs are stored with \<open>Failed\<close> and every descendant of the instance is
  marked as skipped. An instance or a type that does not resolve is unexpected at this
  point and aborts the run with \<open>InternalError\<close>; the state is then what the run had
  done so far.
\<close>

definition run_instance ::
  "registry \<Rightarrow> workflow_graph \<Rightarrow> string \<Rightarrow> engine_state \<Rightarrow> workflow_error option \<times> engine_state" where
  "run_instance reg g i s =
     (if i \<in> skipped s then (None, s)
      else
        (case find_instance g i of
           None \<Rightarrow> (Some (InternalError (''unknown instance '' @ i)), s)
         | Some n \<Rightarrow>
             (case reg (type_id n) of
                None \<Rightarrow> (Some (InternalError (''unknown node type '' @ type_id n)), s)
              | Some d \<Rightarrow>
                  (case execute d (resolve_inputs g (results s) d n) of
                     Inr outs \<Rightarrow>
                       (None,
                        s\<lparr>results := (results s)(i \<mapsto> \<lparr>outputs = outs, status = Success\<rparr>),
                          invocations :=
                            invocations s @ [(i, resolve_inputs g (results s) d n)]\<rparr>)
                   | Inl err \<Rightarrow>
                       (None,
                        s\<lparr>results := (results s)(i \<mapsto> \<lparr>outputs = [], status = Failed err\<rparr>),
                          skipped := skipped s \<union> descendants g i,
                          invocations :=
                            invocations s @ [(i, resolve_inputs g (results s) d n)]\<rparr>)))))"

text \<open>
  Modelled from the spec: the instances of one batch, one after the other; none of them depends
  on another one of the batch. An error aborts the batch.
\<close>

fun run_batch ::
  "registry \<Rightarrow> workflow_graph \<Rightarrow> string list \<Rightarrow> engine_state \<Rightarrow> workflow_error option \<times> engine_state" where
  "run_batch reg g [] s = (None, s)"
| "run_batch reg g (i # rest) s =
     (case run_instance reg g i s of
        (Some err, s') \<Rightarrow> (Some err, s')
      | (None, s') \<Rightarrow> run_batch reg g rest s')"

text \<open>
  Modelled from the spec: the batches of the order, one after the other. An error aborts the
  run.
\<close>

fun run_batches ::
  "registry \<Rightarrow> workflow_graph \<Rightarrow> string list list \<Rightarrow> engine_state \<Rightarrow> workflow_error option \<times> engine_state" where
  "run_batches reg g [] s = (None, s)"
| "run_batches reg g (batch # batches) s =
     (case run_batch reg g batch s of
        (Some err, s') \<Rightarrow> (Some err, s')
      | (None, s') \<Rightarrow> run_batches reg g batches s')"

text \<open>
  Modelled from the spec: \<open>run(graph, order)\<close>, the entry of the engine. It counts the call
  and runs the batches.
\<close>

definition run ::
  "registry \<Rightarrow> workflow_graph \<Rightarrow> string list list \<Rightarrow> engine_state \<Rightarrow> workflow_error option \<times> engine_state" where
  "run reg g batches s = run_batches reg g batches (s\<lparr>engine_runs := Suc (engine_runs s)\<rparr>)"

text \<open>
  Modelled from the spec: the contract of the graph validator, which returns the violations it
  finds; the validator itself is a parameter of the execution.
\<close>

type_synonym validator = "workflow_graph \<Rightarrow> workflow_error list"

text \<open>
  Modelled from the spec: the data flow of one execution request, from the graph through
  the validator and the scheduler to the engine. The graph validator is a parameter: it
  returns the violations it finds, and any violation prevents the execution. The outcome
  is the list of the errors, empty when the run completed, and the state of the engine:
  the initial state when the engine was not called, what the run had done when it was
  aborted, the final state when it completed.
\<close>

definition execute_graph ::
  "validator \<Rightarrow> registry \<Rightarrow> workflow_graph \<Rightarrow> workflow_error list \<times> engine_state" where
  "execute_graph validate reg g =
     (case validate g of
        v # vs \<Rightarrow> (v # vs, initial_state)
      | [] \<Rightarrow>
          (case order g of
             Inl err \<Rightarrow> ([err], initial_state)
           | Inr batches \<Rightarrow>
               (case run reg g batches initial_state of
                  (Some err, s) \<Rightarrow> ([err], s)
                | (None, s) \<Rightarrow> ([], s))))"

text \<open>
  What an execution has done, read from the state of the engine in its outcome: the
  calls of the execution function of an instance, the result stored for it, and the
  calls of the engine.
\<close>

definition invocation_count :: "workflow_error list \<times> engine_state \<Rightarrow> string \<Rightarrow> nat" where
  "invocation_count outcome i = count_list (map fst (invocations (snd outcome))) i"

definition produced_result :: "workflow_error list \<times> engine_state \<Rightarrow> string \<Rightarrow> execution_result option" where
  "produced_result outcome i = results (snd outcome) i"

definition engine_calls :: "workflow_error list \<times> engine_state \<Rightarrow> nat" where
  "engine_calls outcome = engine_runs (snd outcome)"

text \<open>
  The execution result that the engine stores for what an execution function returned.
\<close>

definition result_of :: "string + (string \<times> py) list \<Rightarrow> execution_result" where
  "result_of returned =
     (case returned of
        Inr outs \<Rightarrow> \<lparr>outputs = outs, status = Success\<rparr>
      | Inl err \<Rightarrow> \<lparr>outputs = [], status = Failed err\<rparr>)"

text \<open>An instance has failed when the result stored for it has the status \<open>Failed\<close>.\<close>

definition has_failed :: "(string \<rightharpoonup> execution_result) \<Rightarrow> string \<Rightarrow> bool" where
  "has_failed res x =
     (case res x of
        None \<Rightarrow> False
      | Some r \<Rightarrow> (case status r of Success \<Rightarrow> False | Failed err \<Rightarrow> True))"

definition out_degree :: "workflow_graph \<Rightarrow> string \<Rightarrow> nat" where
  "out_degree g i = length (filter (\<lambda>e. source_instance_id e = i) (graph_edges g))"

definition types_resolve :: "registry \<Rightarrow> workflow_graph \<Rightarrow> bool" where
  "types_resolve reg g = list_all (\<lambda>n. reg (type_id n) \<noteq> None) (graph_nodes g)"

text \<open>
  The edge \<open>e\<close> is the one from which the instance \<open>t\<close> takes its declared parameter
  \<open>target_port e\<close>: the instance has no literal for it and \<open>e\<close> is the supplying edge.
\<close>

definition supplied_by :: "registry \<Rightarrow> workflow_graph \<Rightarrow> string \<Rightarrow> edge \<Rightarrow> bool" where
  "supplied_by reg g t e =
     (case find_instance g t of
        None \<Rightarrow> False
      | Some n \<Rightarrow>
          (case reg (type_id n) of
             None \<Rightarrow> False
           | Some d \<Rightarrow>
               target_port e \<in> set (map name (params d))
               \<and> map_of (parameters n) (target_port e) = None
               \<and> supplying_edge g n (target_port e) = Some e))"

text \<open>
  The invariant of a run, \<open>handled\<close> being the instances handled so far: only handled
  instances were invoked or have a result; a handled instance was invoked once unless it
  is skipped, and has a result unless it is skipped; the skipped instances are the
  descendants of the failed ones; every invocation was for an instance of the graph, with
  the inputs resolved for it, and the result stored for the instance is what its
  execution function returned.
\<close>

definition engine_inv :: "registry \<Rightarrow> workflow_graph \<Rightarrow> string list \<Rightarrow> engine_state \<Rightarrow> bool" where
  "engine_inv reg g handled s =
     (fst ` set (invocations s) \<subseteq> set handled
      \<and> dom (results s) \<subseteq> set handled
      \<and> (\<forall>i\<in>set handled. count_list (map fst (invocations s)) i = (if i \<in> skipped s then 0 else 1))
      \<and> (\<forall>i\<in>set handled. (i \<in> skipped s) = (results s i = None))
      \<and> skipped s = (\<Union>x\<in>{x. has_failed (results s) x}. descendants g x)
      \<and> (\<forall>(i, inputs)\<in>set (invocations s).
            \<exists>n d. find_instance g i = Some n \<and> reg (type_id n) = Some d
                 \<and> inputs = resolve_inputs g (results s) d n
                 \<and> results s i = Some (result_of (execute d inputs))))"

definition closed_under_sources :: "edge list \<Rightarrow> string list \<Rightarrow> bool" where
  "closed_under_sources es handled =
     list_all (\<lambda>e. target_instance_id e \<in> set handled \<longrightarrow> source_instance_id e \<in> set handled) es"

text \<open>
  Graphs and a registry for the examples: the sum and the product of \<open>x\<close> and \<open>y\<close> on the
  port \<open>out\<close>, and a node type that always fails. In \<open>example_graph\<close> the output of \<open>A\<close>
  feeds \<open>B\<close> and \<open>C\<close>; \<open>cyclic_graph\<close> is the cycle of two instances; in
  \<open>failing_graph\<close> the instance \<open>A\<close> fails, \<open>B\<close> depends on it and feeds \<open>C\<close> and \<open>D\<close>;
  in \<open>half_graph\<close> the type of \<open>B\<close> is not in the registry.
\<close>

definition binary_node :: "(int \<Rightarrow> int \<Rightarrow> int) \<Rightarrow> descriptor" where
  "binary_node f =
     \<lparr>params = [\<lparr>name = ''x'', required = True, default_value = None, type_kind = ''int''\<rparr>,
                \<lparr>name = ''y'', required = True, default_value = None, type_kind = ''int''\<rparr>],
      execute = (\<lambda>inputs.
        case (map_of inputs ''x'', map_of inputs ''y'') of
          (Some (PInt a), Some (PInt b)) \<Rightarrow> Inr [(''out'', PInt (f a b))]
        | _ \<Rightarrow> Inl ''bad inputs'')\<rparr>"

definition failing_node :: descriptor where
  "failing_node =
     \<lparr>params = [\<lparr>name = ''x'', required = False, default_value = None, type_kind = ''int''\<rparr>],
      execute = (\<lambda>inputs. Inl ''boom'')\<rparr>"

definition example_node_registry :: registry where
  "example_node_registry =
     [''add'' \<mapsto> binary_node (+), ''multiply'' \<mapsto> binary_node (*), ''fail'' \<mapsto> failing_node]"

definition no_violations :: validator where
  "no_violations g = []"

definition example_graph :: workflow_graph where
  "example_graph =
     \<lparr>graph_nodes =
        [\<lparr>instance_id = ''A'', type_id = ''add'', parameters = [(''x'', PInt 2), (''y'', PInt 3)]\<rparr>,
         \<lparr>instance_id = ''B'', type_id = ''multiply'', parameters = [(''y'', PInt 4)]\<rparr>,
         \<lparr>instance_id = ''C'', type_id = ''multiply'', parameters = [(''y'', PInt 10)]\<rparr>],
      graph_edges =
        [\<lparr>source_instance_id = ''A'', source_port = ''out'',
          target_instance_id = ''B'', target_port = ''x''\<rparr>,
         \<lparr>source_instance_id = ''A'', source_port = ''out'',
          target_instance_id = ''C'', target_port = ''x''\<rparr>]\<rparr>"

definition cyclic_graph :: workflow_graph where
  "cyclic_graph =
     \<lparr>graph_nodes =
        [\<lparr>instance_id = ''A'', type_id = ''add'', parameters = [(''y'', PInt 3)]\<rparr>,
         \<lparr>instance_id = ''B'', type_id = ''multiply'', parameters = [(''y'', PInt 4)]\<rparr>],
      graph_edges =
        [\<lparr>source_instance_id = ''A'', source_port = ''out'',
          target_instance_id = ''B'', target_port = ''x''\<rparr>,
         \<lparr>source_instance_id = ''B'', source_port = ''out'',
          target_instance_id = ''A'', target_port = ''x''\<rparr>]\<rparr>"

definition failing_graph :: workflow_graph where
  "failing_graph =
     \<lparr>graph_nodes =
        [\<lparr>instance_id = ''A'', type_id = ''fail'', parameters = []\<rparr>,
         \<lparr>instance_id = ''B'', type_id = ''multiply'', parameters = [(''y'', PInt 4)]\<rparr>,
         \<lparr>instance_id = ''C'', type_id = ''add'', parameters = [(''y'', PInt 1)]\<rparr>,
         \<lparr>instance_id = ''D'', type_id = ''add'', parameters = [(''y'', PInt 2)]\<rparr>],
      graph_edges =
        [\<lparr>source_instance_id = ''A'', source_port = ''out'',
          target_instance_id = ''B'', target_port = ''x''\<rparr>,
         \<lparr>source_instance_id = ''B'', source_port = ''out'',
          target_instance_id = ''C'', target_port = ''x''\<rparr>,
         \<lparr>source_instance_id = ''B'', source_port = ''out'',
          target_instance_id = ''D'', target_port = ''x''\<rparr>]\<rparr>"

definition half_graph :: workflow_graph where
  "half_graph =
     \<lparr>graph_nodes =
        [\<lparr>instance_id = ''A'', type_id = ''add'', parameters = [(''x'', PInt 2), (''y'', PInt 3)]\<rparr>,
         \<lparr>instance_id = ''B'', type_id = ''nowhere'', parameters = []\<rparr>],
      graph_edges =
        [\<lparr>source_instance_id = ''A'', source_port = ''out'',
          target_instance_id = ''B'', target_port = ''x''\<rparr>]\<rparr>"
section \<open>Properties of the catalog endpoint\<close>

lemma get_node_list_raises:
  "get_node_list f = Inl e \<Longrightarrow> e = internal_server_error"
  by (simp add: get_node_list_def split: sum.splits)

lemma get_node_list_missing:
  "get_node_list None = Inl internal_server_error"
  by (simp add: get_node_list_def get_node_list_try_def)

lemma get_node_list_empty:
  "\<not> truthy v \<Longrightarrow> get_node_list (Some (Inr v)) = Inl internal_server_error"
  by (simp add: get_node_list_def get_node_list_try_def)

lemma list_nodes_of_500:
  "get_node_list f = Inl internal_server_error \<Longrightarrow> list_nodes f = Inl internal_server_error"
  by (simp add: list_nodes_def internal_server_error_def)

text \<open>
  Claim C9. When the exported catalog file is missing, or its parsed contents are empty
  (falsy), \<^verbatim>\<open>get_node_list\<close> raises the HTTP error with status code 500 and detail
  "Internal Server Error", and so does \<^verbatim>\<open>list_nodes\<close>; the 404 built inside the
  \<^verbatim>\<open>try\<close> block is what the block raises there, and it never escapes: whatever the state of
  the file, an exception leaving \<^verbatim>\<open>get_node_list\<close> is that 500.
\<close>

theorem get_node_list_404_becomes_500:
  assumes "f = None \<or> (\<exists>v. f = Some (Inr v) \<and> \<not> truthy v)"
  shows "get_node_list_try f = Inl (HTTPException 404 ''No nodes available. Please run discovery first.'')
       \<and> get_node_list f = Inl (HTTPException 500 ''Internal Server Error'')
       \<and> list_nodes f = Inl (HTTPException 500 ''Internal Server Error'')
       \<and> (\<forall>g. case get_node_list g of
                  Inl e \<Rightarrow> e = HTTPException 500 ''Internal Server Error''
                | Inr v \<Rightarrow> True)"
proof (intro conjI allI)
  show "get_node_list_try f = Inl (HTTPException 404 ''No nodes available. Please run discovery first.'')"
    using assms by (auto simp: get_node_list_try_def no_nodes_available_def)
  have outer: "get_node_list f = Inl internal_server_error"
    using assms get_node_list_missing get_node_list_empty by auto
  then show "get_node_list f = Inl (HTTPException 500 ''Internal Server Error'')"
    by (simp add: internal_server_error_def)
  show "list_nodes f = Inl (HTTPException 500 ''Internal Server Error'')"
    using list_nodes_of_500 [OF outer] by (simp add: internal_server_error_def)
next
  fix g
  show "case get_node_list g of
          Inl e \<Rightarrow> e = HTTPException 500 ''Internal Server Error''
        | Inr v \<Rightarrow> True"
    using get_node_list_raises [of g]
    by (cases "get_node_list g") (simp_all add: internal_server_error_def)
qed

theorem get_node_list_404_becomes_500_witness:
  "get_node_list_try (Some (Inr (PList []))) =
     Inl (HTTPException 404 ''No nodes available. Please run discovery first.'')
   \<and> get_node_list (Some (Inr (PList []))) = Inl (HTTPException 500 ''Internal Server Error'')
   \<and> list_nodes None = Inl (HTTPException 500 ''Internal Server Error'')
   \<and> get_node_list (Some (Inr (PList [PDict [(''id'', PStr ''a'')]]))) =
       Inr (PList [PDict [(''id'', PStr ''a'')]])"
proof -
  have h1: "Some (Inr (PList [])) = None \<or> (\<exists>v. Some (Inr (PList [])) = Some (Inr v) \<and> \<not> truthy v)"
    by simp
  have h2: "(None :: catalog_file) = None \<or> (\<exists>v. None = Some (Inr v) \<and> \<not> truthy v)"
    by simp
  note t1 = get_node_list_404_becomes_500 [OF h1]
  note t2 = get_node_list_404_becomes_500 [OF h2]
  have d: "get_node_list (Some (Inr (PList [PDict [(''id'', PStr ''a'')]]))) =
             Inr (PList [PDict [(''id'', PStr ''a'')]])"
    by (simp add: get_node_list_def get_node_list_try_def)
  from t1 [THEN conjunct1] t1 [THEN conjunct2, THEN conjunct1]
       t2 [THEN conjunct2, THEN conjunct2, THEN conjunct1] d
  show ?thesis by (intro conjI)
qed

section \<open>Properties of \<^verbatim>\<open>validate_critical_configs\<close>\<close>

lemma check_api_key_result:
  "check_api_key c r = Inr r' \<Longrightarrow>
     r' = (if api_key_blank c then add_warning ''OpenAI API key is not configured'' r else r)"
  by (auto simp: check_api_key_def api_key_blank_def py_strip_def code_points_def
      split: option.splits if_splits py.splits)

lemma check_port_result:
  "check_port c r = Inr r' \<Longrightarrow>
     (port_invalid c \<longrightarrow>
        (\<exists>port. config_value c ''app'' ''PORT'' = Some port
           \<and> r' = add_error (''Invalid port number: '' @ py_format port) r))
     \<and> (\<not> port_invalid c \<longrightarrow> r' = r)"
  by (auto simp: check_port_def port_invalid_def split: option.splits if_splits)

lemma check_timeout_result:
  "check_timeout c r = Inr r' \<Longrightarrow>
     (timeout_invalid c \<longrightarrow>
        (\<exists>t. config_value c ''workflow'' ''EXECUTION_TIMEOUT'' = Some t
           \<and> r' = add_error (''Invalid workflow timeout: '' @ py_format t) r))
     \<and> (\<not> timeout_invalid c \<longrightarrow> r' = r)"
  by (auto simp: check_timeout_def timeout_invalid_def split: option.splits if_splits)

lemma check_api_key_returns:
  "well_typed_configs c \<Longrightarrow> \<exists>r'. check_api_key c r = Inr r'"
  by (auto simp: check_api_key_def well_typed_configs_def split: option.splits py.splits)

lemma check_port_returns:
  "well_typed_configs c \<Longrightarrow> \<exists>r'. check_port c r = Inr r'"
  by (auto simp: check_port_def well_typed_configs_def split: option.splits)

lemma check_timeout_returns:
  "well_typed_configs c \<Longrightarrow> \<exists>r'. check_timeout c r = Inr r'"
  by (auto simp: check_timeout_def well_typed_configs_def split: option.splits)

lemma validate_critical_configs_returns:
  assumes "well_typed_configs c"
  shows "\<exists>r. validate_critical_configs c = Inr r"
proof -
  obtain r1 where a: "check_api_key c \<lparr>valid = True, warnings = [], errors = []\<rparr> = Inr r1"
    using check_api_key_returns [OF assms] by blast
  obtain r2 where b: "check_port c r1 = Inr r2"
    using check_port_returns [OF assms] by blast
  obtain r3 where d: "check_timeout c r2 = Inr r3"
    using check_timeout_returns [OF assms] by blast
  from a b d show ?thesis by (simp add: validate_critical_configs_def)
qed

lemma validate_critical_configs_steps:
  assumes "validate_critical_configs c = Inr r"
  obtains r1 r2 where
    "check_api_key c \<lparr>valid = True, warnings = [], errors = []\<rparr> = Inr r1"
    "check_port c r1 = Inr r2" "check_timeout c r2 = Inr r"
  using assms by (auto simp: validate_critical_configs_def split: sum.splits)

lemma validate_critical_configs_fields:
  assumes "validate_critical_configs c = Inr r"
  shows "valid r = (\<not> port_invalid c \<and> \<not> timeout_invalid c)"
    and "warnings r = (if api_key_blank c then [''OpenAI API key is not configured''] else [])"
    and "length (errors r) = (if port_invalid c then 1 else 0) + (if timeout_invalid c then 1 else 0)"
    and "port_invalid c \<Longrightarrow> \<exists>port. config_value c ''app'' ''PORT'' = Some port
           \<and> ''Invalid port number: '' @ py_format port \<in> set (errors r)"
    and "timeout_invalid c \<Longrightarrow> \<exists>t. config_value c ''workflow'' ''EXECUTION_TIMEOUT'' = Some t
           \<and> ''Invalid workflow timeout: '' @ py_format t \<in> set (errors r)"
proof -
  from assms obtain r1 r2 where
    a: "check_api_key c \<lparr>valid = True, warnings = [], errors = []\<rparr> = Inr r1"
    and b: "check_port c r1 = Inr r2" and d: "check_timeout c r2 = Inr r"
    by (rule validate_critical_configs_steps)
  note ra = check_api_key_result [OF a]
  note rb = check_port_result [OF b]
  note rd = check_timeout_result [OF d]
  from ra have r1: "valid r1" "errors r1 = []"
    "warnings r1 = (if api_key_blank c then [''OpenAI API key is not configured''] else [])"
    by (simp_all add: add_warning_def)
  have r2: "valid r2 = (\<not> port_invalid c)"
    "warnings r2 = warnings r1"
    "length (errors r2) = (if port_invalid c then 1 else 0)"
  proof -
    show "valid r2 = (\<not> port_invalid c)"
      using rb r1 by (cases "port_invalid c") (auto simp: add_error_def)
    show "warnings r2 = warnings r1"
      using rb by (cases "port_invalid c") (auto simp: add_error_def)
    show "length (errors r2) = (if port_invalid c then 1 else 0)"
      using rb r1 by (cases "port_invalid c") (auto simp: add_error_def)
  qed
  show "valid r = (\<not> port_invalid c \<and> \<not> timeout_invalid c)"
    using rd r2 by (cases "timeout_invalid c") (auto simp: add_error_def)
  show "warnings r = (if api_key_blank c then [''OpenAI API key is not configured''] else [])"
    using rd r2 r1 by (cases "timeout_invalid c") (auto simp: add_error_def)
  show "length (errors r) = (if port_invalid c then 1 else 0) + (if timeout_invalid c then 1 else 0)"
    using rd r2 by (cases "timeout_invalid c") (auto simp: add_error_def)
  {
    assume "port_invalid c"
    with rb obtain port where p: "config_value c ''app'' ''PORT'' = Some port"
      "r2 = add_error (''Invalid port number: '' @ py_format port) r1" by blast
    then have "''Invalid port number: '' @ py_format port \<in> set (errors r2)"
      by (simp add: add_error_def)
    with rd have "''Invalid port number: '' @ py_format port \<in> set (errors r)"
      by (cases "timeout_invalid c") (auto simp: add_error_def)
    with p show "\<exists>port. config_value c ''app'' ''PORT'' = Some port
           \<and> ''Invalid port number: '' @ py_format port \<in> set (errors r)" by blast
  }
  {
    assume "timeout_invalid c"
    with rd obtain t where "config_value c ''workflow'' ''EXECUTION_TIMEOUT'' = Some t"
      "r = add_error (''Invalid workflow timeout: '' @ py_format t) r2" by blast
    then show "\<exists>t. config_value c ''workflow'' ''EXECUTION_TIMEOUT'' = Some t
           \<and> ''Invalid workflow timeout: '' @ py_format t \<in> set (errors r)"
      by (auto simp: add_error_def)
  }
qed

lemma example_composer_result:
  "validate_critical_configs example_composer =
     Inr \<lparr>valid = False, warnings = [''OpenAI API key is not configured''],
           errors = [''Invalid port number: 70000'']\<rparr>"
  by (simp add: example_composer_def validate_critical_configs_def check_api_key_def
      check_port_def check_timeout_def config_value_def add_warning_def add_error_def
      py_strip_def py_isspace_def code_points_def continuation_count_def code_point_def
      is_continuation_def str_int_def str_nat.simps digit_char_def)

lemma example_composer_timeout_result:
  "validate_critical_configs example_composer_timeout =
     Inr \<lparr>valid = False, warnings = [], errors = [''Invalid workflow timeout: 0'']\<rparr>"
  by (simp add: example_composer_timeout_def validate_critical_configs_def check_api_key_def
      check_port_def check_timeout_def config_value_def add_warning_def add_error_def
      py_strip_def py_isspace_def code_points_def continuation_count_def code_point_def
      is_continuation_def str_int_def str_nat.simps digit_char_def)

lemma example_composer_nbsp_result:
  "validate_critical_configs example_composer_nbsp =
     Inr \<lparr>valid = True, warnings = [''OpenAI API key is not configured''], errors = []\<rparr>"
  by (simp add: example_composer_nbsp_def validate_critical_configs_def check_api_key_def
      check_port_def check_timeout_def config_value_def add_warning_def add_error_def
      py_strip_def py_isspace_def code_points_def continuation_count_def code_point_def
      is_continuation_def)

text \<open>
  Claim C10. On every composer state whose configuration values have the types the checks
  expect, \<^verbatim>\<open>validate_critical_configs\<close> returns, and whatever it returns has \<open>valid\<close>
  true exactly when \<open>errors\<close> is empty. An out-of-range port and a non-positive workflow
  timeout each put their message into \<open>errors\<close> and make \<open>valid\<close> false; these are the only
  errors, so \<open>valid\<close> is decided by the port and the timeout alone. An API key that is unset
  or blank gives the one warning and leaves \<open>valid\<close> and \<open>errors\<close> alone.
\<close>

theorem validate_critical_configs_valid_iff_no_errors:
  "(well_typed_configs c \<longrightarrow> (\<exists>r. validate_critical_configs c = Inr r))
   \<and> (\<forall>r. validate_critical_configs c = Inr r \<longrightarrow>
        (valid r \<longleftrightarrow> errors r = [])
      \<and> (valid r \<longleftrightarrow> \<not> port_invalid c \<and> \<not> timeout_invalid c)
      \<and> length (errors r) = (if port_invalid c then 1 else 0) + (if timeout_invalid c then 1 else 0)
      \<and> (port_invalid c \<longrightarrow>
            (\<exists>port. config_value c ''app'' ''PORT'' = Some port
               \<and> ''Invalid port number: '' @ py_format port \<in> set (errors r)))
      \<and> (timeout_invalid c \<longrightarrow>
            (\<exists>t. config_value c ''workflow'' ''EXECUTION_TIMEOUT'' = Some t
               \<and> ''Invalid workflow timeout: '' @ py_format t \<in> set (errors r)))
      \<and> warnings r = (if api_key_blank c then [''OpenAI API key is not configured''] else []))"
proof (intro conjI allI impI)
  assume "well_typed_configs c"
  then show "\<exists>r. validate_critical_configs c = Inr r"
    by (rule validate_critical_configs_returns)
next
  fix r assume r: "validate_critical_configs c = Inr r"
  note f = validate_critical_configs_fields [OF r]
  from f(1) f(3) show "valid r \<longleftrightarrow> errors r = []"
    by (auto split: if_splits)
  from f(1) show "valid r \<longleftrightarrow> \<not> port_invalid c \<and> \<not> timeout_invalid c" .
  from f(3) show "length (errors r) =
      (if port_invalid c then 1 else 0) + (if timeout_invalid c then 1 else 0)" .
  from f(2) show "warnings r = (if api_key_blank c then [''OpenAI API key is not configured''] else [])" .
  {
    assume "port_invalid c"
    then show "\<exists>port. config_value c ''app'' ''PORT'' = Some port
               \<and> ''Invalid port number: '' @ py_format port \<in> set (errors r)"
      by (rule f(4))
  }
  {
    assume "timeout_invalid c"
    then show "\<exists>t. config_value c ''workflow'' ''EXECUTION_TIMEOUT'' = Some t
               \<and> ''Invalid workflow timeout: '' @ py_format t \<in> set (errors r)"
      by (rule f(5))
  }
qed

theorem validate_critical_configs_valid_iff_no_errors_witness:
  "well_typed_configs example_composer
   \<and> well_typed_configs example_composer_timeout
   \<and> port_invalid example_composer
   \<and> timeout_invalid example_composer_timeout
   \<and> api_key_blank example_composer
   \<and> api_key_blank example_composer_nbsp
   \<and> validate_critical_configs example_composer_nbsp =
       Inr \<lparr>valid = True, warnings = [''OpenAI API key is not configured''], errors = []\<rparr>
   \<and> (\<exists>r. validate_critical_configs example_composer_nbsp = Inr r
          \<and> valid r \<and> errors r = [] \<and> warnings r = [''OpenAI API key is not configured''])
   \<and> validate_critical_configs example_composer =
       Inr \<lparr>valid = False, warnings = [''OpenAI API key is not configured''],
             errors = [''Invalid port number: 70000'']\<rparr>
   \<and> validate_critical_configs example_composer_timeout =
       Inr \<lparr>valid = False, warnings = [], errors = [''Invalid workflow timeout: 0'']\<rparr>
   \<and> (\<exists>r. validate_critical_configs example_composer = Inr r
          \<and> \<not> valid r \<and> errors r \<noteq> [] \<and> length (errors r) = 1
          \<and> warnings r = [''OpenAI API key is not configured''])
   \<and> (\<exists>r. validate_critical_configs example_composer_timeout = Inr r
          \<and> \<not> valid r \<and> length (errors r) = 1 \<and> warnings r = []
          \<and> ''Invalid workflow timeout: 0'' \<in> set (errors r))"
proof -
  have wt: "well_typed_configs example_composer"
    by (simp add: well_typed_configs_def example_composer_def config_value_def)
  have pi: "port_invalid example_composer"
    by (simp add: port_invalid_def example_composer_def config_value_def)
  have ti: "\<not> timeout_invalid example_composer"
    by (simp add: timeout_invalid_def example_composer_def config_value_def)
  have ab: "api_key_blank example_composer"
    by (simp add: api_key_blank_def example_composer_def config_value_def py_strip_def
        py_isspace_def code_points_def continuation_count_def code_point_def is_continuation_def)
  have wt': "well_typed_configs example_composer_timeout"
    by (simp add: well_typed_configs_def example_composer_timeout_def config_value_def)
  have pi': "\<not> port_invalid example_composer_timeout"
    by (simp add: port_invalid_def example_composer_timeout_def config_value_def)
  have ti': "timeout_invalid example_composer_timeout"
    by (simp add: timeout_invalid_def example_composer_timeout_def config_value_def)
  have ab': "\<not> api_key_blank example_composer_timeout"
    by (simp add: api_key_blank_def example_composer_timeout_def config_value_def py_strip_def
        py_isspace_def code_points_def continuation_count_def code_point_def is_continuation_def)
  have tv: "config_value example_composer_timeout ''workflow'' ''EXECUTION_TIMEOUT'' = Some (PInt 0)"
    by (simp add: example_composer_timeout_def config_value_def)
  have wt'': "well_typed_configs example_composer_nbsp"
    by (simp add: well_typed_configs_def example_composer_nbsp_def config_value_def)
  have pi'': "\<not> port_invalid example_composer_nbsp"
    by (simp add: port_invalid_def example_composer_nbsp_def config_value_def)
  have ti'': "\<not> timeout_invalid example_composer_nbsp"
    by (simp add: timeout_invalid_def example_composer_nbsp_def config_value_def)
  have ab'': "api_key_blank example_composer_nbsp"
    by (simp add: api_key_blank_def example_composer_nbsp_def config_value_def py_strip_def
        py_isspace_def code_points_def continuation_count_def code_point_def is_continuation_def)
  note t'' = validate_critical_configs_valid_iff_no_errors [of example_composer_nbsp]
  from t'' wt'' obtain r'' where r'': "validate_critical_configs example_composer_nbsp = Inr r''"
    by blast
  from t'' r'' pi'' ti'' ab'' have 0: "valid r'' \<and> errors r'' = []
      \<and> warnings r'' = [''OpenAI API key is not configured'']"
    by auto
  from r'' 0 have e0: "\<exists>r. validate_critical_configs example_composer_nbsp = Inr r
          \<and> valid r \<and> errors r = [] \<and> warnings r = [''OpenAI API key is not configured'']"
    by blast
  note t = validate_critical_configs_valid_iff_no_errors [of example_composer]
  note t' = validate_critical_configs_valid_iff_no_errors [of example_composer_timeout]
  from t wt obtain r where r: "validate_critical_configs example_composer = Inr r"
    by blast
  from t r pi ti ab have 1: "\<not> valid r \<and> errors r \<noteq> [] \<and> length (errors r) = 1
          \<and> warnings r = [''OpenAI API key is not configured'']"
    by auto
  from t' wt' obtain r' where r': "validate_critical_configs example_composer_timeout = Inr r'"
    by blast
  from t' r' pi' ti' ab' have 2: "\<not> valid r' \<and> length (errors r') = 1 \<and> warnings r' = []"
    by auto
  from t' r' ti' obtain tm where
    "config_value example_composer_timeout ''workflow'' ''EXECUTION_TIMEOUT'' = Some tm"
    "''Invalid workflow timeout: '' @ py_format tm \<in> set (errors r')"
    by blast
  with tv have 3: "''Invalid workflow timeout: 0'' \<in> set (errors r')"
    by (simp add: str_int_def str_nat.simps digit_char_def)
  from r 1 have e1: "\<exists>r. validate_critical_configs example_composer = Inr r
          \<and> \<not> valid r \<and> errors r \<noteq> [] \<and> length (errors r) = 1
          \<and> warnings r = [''OpenAI API key is not configured'']"
    by blast
  from r' 2 3 have e2: "\<exists>r. validate_critical_configs example_composer_timeout = Inr r
          \<and> \<not> valid r \<and> length (errors r) = 1 \<and> warnings r = []
          \<and> ''Invalid workflow timeout: 0'' \<in> set (errors r)"
    by blast
  from wt wt' pi ti' ab ab'' example_composer_nbsp_result e0
    example_composer_result example_composer_timeout_result e1 e2
  show ?thesis by (intro conjI)
qed

section \<open>Properties of the workflow endpoint\<close>



lemma execute_workflow_returns:
  "executor (Workflow_dict w) = Inr outs \<Longrightarrow>
     execute_workflow executor w =
       Inr (PDict [(''status'', PStr ''success''), (''message'', PStr workflow_done_message),
                   (''outputs'', outs)])"
  by (simp add: execute_workflow_def)

lemma execute_workflow_Inr:
  assumes "execute_workflow executor w = Inr resp"
  shows "\<exists>outs. executor (Workflow_dict w) = Inr outs
           \<and> resp = PDict [(''status'', PStr ''success''),
                           (''message'', PStr workflow_done_message), (''outputs'', outs)]"
proof (cases "executor (Workflow_dict w)")
  case (Inl e)
  with assms show ?thesis
    by (cases e) (simp_all add: execute_workflow_def)
next
  case (Inr outs)
  with assms show ?thesis
    by (simp add: execute_workflow_def)
qed






lemma post_node_execute_Inr:
  assumes "post_node_execute executor body = Inr resp"
  shows "\<exists>w. Workflow_validate body = Inr w \<and> execute_workflow executor w = Inr resp"
  using assms by (cases "Workflow_validate body") (simp_all add: post_node_execute_def)

text \<open>
  Claim C5. Every successful response of \<^verbatim>\<open>POST /node/execute\<close> is a mapping with exactly
  the keys \<open>status\<close>, \<open>outputs\<close> and \<open>message\<close>, each once; \<open>status\<close> is the string
  "success", and \<open>outputs\<close> is the mapping that the execution of the validated workflow
  returned. Whenever the execution returns, there is such a response.
\<close>

theorem execute_workflow_response_shape:
  "(\<forall>resp. post_node_execute executor body = Inr resp \<longrightarrow>
      (\<exists>w final_outputs.
          Workflow_validate body = Inr w
        \<and> executor (Workflow_dict w) = Inr final_outputs
        \<and> distinct (dict_keys resp)
        \<and> set (dict_keys resp) = {''status'', ''message'', ''outputs''}
        \<and> dict_lookup resp ''status'' = Some (PStr ''success'')
        \<and> dict_lookup resp ''outputs'' = Some final_outputs
        \<and> dict_lookup resp ''message'' = Some (PStr workflow_done_message)))
   \<and> (\<forall>w final_outputs.
        Workflow_validate body = Inr w \<and> executor (Workflow_dict w) = Inr final_outputs \<longrightarrow>
        (\<exists>resp. post_node_execute executor body = Inr resp
           \<and> dict_lookup resp ''outputs'' = Some final_outputs))"
proof (intro conjI allI impI)
  fix resp assume "post_node_execute executor body = Inr resp"
  then obtain w where w: "Workflow_validate body = Inr w"
    and e: "execute_workflow executor w = Inr resp"
    using post_node_execute_Inr by blast
  from execute_workflow_Inr [OF e] obtain outs where
    o: "executor (Workflow_dict w) = Inr outs"
    and r: "resp = PDict [(''status'', PStr ''success''),
                          (''message'', PStr workflow_done_message), (''outputs'', outs)]"
    by blast
  have k: "distinct (dict_keys resp)"
    unfolding r by simp
  have s: "set (dict_keys resp) = {''status'', ''message'', ''outputs''}"
    unfolding r by simp
  have l: "dict_lookup resp ''status'' = Some (PStr ''success'')"
    "dict_lookup resp ''outputs'' = Some outs"
    "dict_lookup resp ''message'' = Some (PStr workflow_done_message)"
    unfolding r by simp_all
  from w o k s l show "\<exists>w final_outputs.
          Workflow_validate body = Inr w
        \<and> executor (Workflow_dict w) = Inr final_outputs
        \<and> distinct (dict_keys resp)
        \<and> set (dict_keys resp) = {''status'', ''message'', ''outputs''}
        \<and> dict_lookup resp ''status'' = Some (PStr ''success'')
        \<and> dict_lookup resp ''outputs'' = Some final_outputs
        \<and> dict_lookup resp ''message'' = Some (PStr workflow_done_message)"
    by (intro exI [of _ w] exI [of _ outs] conjI)
next
  fix w final_outputs
  assume "Workflow_validate body = Inr w \<and> executor (Workflow_dict w) = Inr final_outputs"
  then show "\<exists>resp. post_node_execute executor body = Inr resp
           \<and> dict_lookup resp ''outputs'' = Some final_outputs"
    by (simp add: post_node_execute_def execute_workflow_returns)
qed

lemma three_field_request_valid:
  "Workflow_validate three_field_request = Inr example_workflow"
  by (simp add: Workflow_validate_def three_field_request_def example_workflow_def
      list_of_dicts_field_def dict_field_def example_nodes_def example_edges_def)

theorem execute_workflow_response_shape_witness:
  "Workflow_validate three_field_request = Inr example_workflow
   \<and> example_executor (Workflow_dict example_workflow) = Inr example_outputs
   \<and> (\<exists>resp. post_node_execute example_executor three_field_request = Inr resp
         \<and> dict_lookup resp ''outputs'' = Some example_outputs
         \<and> set (dict_keys resp) = {''status'', ''message'', ''outputs''}
         \<and> dict_lookup resp ''status'' = Some (PStr ''success''))"
proof -
  have e: "example_executor (Workflow_dict example_workflow) = Inr example_outputs"
    by (simp add: example_executor_def)
  note t = execute_workflow_response_shape [of "example_executor" three_field_request]
  from t [THEN conjunct2, rule_format, of example_workflow example_outputs]
    three_field_request_valid e
  obtain resp where
    r: "post_node_execute example_executor three_field_request = Inr resp"
    and o: "dict_lookup resp ''outputs'' = Some example_outputs"
    by blast
  from t [THEN conjunct1, rule_format, OF r]
  have "set (dict_keys resp) = {''status'', ''message'', ''outputs''}
      \<and> dict_lookup resp ''status'' = Some (PStr ''success'')"
    by blast
  with r o have "\<exists>resp. post_node_execute example_executor three_field_request = Inr resp
         \<and> dict_lookup resp ''outputs'' = Some example_outputs
         \<and> set (dict_keys resp) = {''status'', ''message'', ''outputs''}
         \<and> dict_lookup resp ''status'' = Some (PStr ''success'')"
    by (intro exI [of _ resp]) simp
  with three_field_request_valid e show ?thesis by (intro conjI)
qed

lemma Workflow_validate_accepts:
  assumes "map_of kvs ''nodes'' = Some (PList ns)" and "list_all is_dict ns"
    and "map_of kvs ''edges'' = Some (PList es)" and "list_all is_dict es"
    and "map_of kvs ''view'' = Some (PDict v)"
  shows "Workflow_validate (PDict kvs) = Inr \<lparr>nodes = ns, edges = es, view = v\<rparr>"
  using assms by (simp add: Workflow_validate_def list_of_dicts_field_def dict_field_def)

lemma Workflow_validate_needs_view:
  assumes "map_of kvs ''view'' = None"
  shows "\<exists>errs. Workflow_validate (PDict kvs) = Inl errs \<and> Missing ''view'' \<in> set errs"
  using assms by (simp add: Workflow_validate_def dict_field_def Let_def)

text \<open>
  The request of the examples that supplies \<open>nodes\<close> and \<open>edges\<close> and nothing else is
  refused by the request model: the field \<open>view\<close> is missing.
\<close>

theorem two_field_request_refused:
  "Workflow_validate two_field_request = Inl [Missing ''view'']"
  by (simp add: Workflow_validate_def two_field_request_def list_of_dicts_field_def
      dict_field_def example_nodes_def example_edges_def)

text \<open>
  Claim C6, amended. The request model of \<^verbatim>\<open>POST /node/execute\<close> has three required
  fields: a \<open>nodes\<close> list of mappings, an \<open>edges\<close> list of mappings and a \<open>view\<close> mapping.
  Every request that supplies the three is accepted by the request model, and the
  execution is given exactly these three fields; a request without \<open>view\<close> is refused with
  a 422 whatever the executor, which is never asked.
\<close>

theorem workflow_request_needs_three_fields:
  "(map_of kvs ''nodes'' = Some (PList ns) \<and> list_all is_dict ns
      \<and> map_of kvs ''edges'' = Some (PList es) \<and> list_all is_dict es
      \<and> map_of kvs ''view'' = Some (PDict v) \<longrightarrow>
        Workflow_validate (PDict kvs) = Inr \<lparr>nodes = ns, edges = es, view = v\<rparr>
      \<and> post_node_execute executor (PDict kvs) =
          execute_workflow executor \<lparr>nodes = ns, edges = es, view = v\<rparr>
      \<and> Workflow_dict \<lparr>nodes = ns, edges = es, view = v\<rparr> =
          PDict [(''nodes'', PList ns), (''edges'', PList es), (''view'', PDict v)])
   \<and> (map_of kvs ''view'' = None \<longrightarrow>
        (\<exists>errs. Workflow_validate (PDict kvs) = Inl errs \<and> Missing ''view'' \<in> set errs)
      \<and> post_node_execute executor (PDict kvs) = Inl (HTTPException 422 ''Unprocessable Entity''))"
proof (intro conjI impI)
  assume a: "map_of kvs ''nodes'' = Some (PList ns) \<and> list_all is_dict ns
      \<and> map_of kvs ''edges'' = Some (PList es) \<and> list_all is_dict es
      \<and> map_of kvs ''view'' = Some (PDict v)"
  then show v: "Workflow_validate (PDict kvs) = Inr \<lparr>nodes = ns, edges = es, view = v\<rparr>"
    by (simp add: Workflow_validate_accepts)
  then show "post_node_execute executor (PDict kvs) =
          execute_workflow executor \<lparr>nodes = ns, edges = es, view = v\<rparr>"
    by (simp add: post_node_execute_def)
  show "Workflow_dict \<lparr>nodes = ns, edges = es, view = v\<rparr> =
          PDict [(''nodes'', PList ns), (''edges'', PList es), (''view'', PDict v)]"
    by (simp add: Workflow_dict_def)
next
  assume a: "map_of kvs ''view'' = None"
  from Workflow_validate_needs_view [OF a]
  show e: "\<exists>errs. Workflow_validate (PDict kvs) = Inl errs \<and> Missing ''view'' \<in> set errs" .
  then show "post_node_execute executor (PDict kvs) = Inl (HTTPException 422 ''Unprocessable Entity'')"
    by (auto simp: post_node_execute_def unprocessable_entity_def)
qed

theorem workflow_request_needs_three_fields_witness:
  "Workflow_validate three_field_request = Inr example_workflow
   \<and> post_node_execute example_executor three_field_request =
       execute_workflow example_executor example_workflow
   \<and> post_node_execute example_executor two_field_request =
       Inl (HTTPException 422 ''Unprocessable Entity'')"
proof -
  have h3: "map_of [(''nodes'', PList example_nodes), (''edges'', PList example_edges),
                    (''view'', PDict [])] ''nodes'' = Some (PList example_nodes)
      \<and> list_all is_dict example_nodes
      \<and> map_of [(''nodes'', PList example_nodes), (''edges'', PList example_edges),
                 (''view'', PDict [])] ''edges'' = Some (PList example_edges)
      \<and> list_all is_dict example_edges
      \<and> map_of [(''nodes'', PList example_nodes), (''edges'', PList example_edges),
                 (''view'', PDict [])] ''view'' = Some (PDict [])"
    by (simp add: example_nodes_def example_edges_def)
  have h2: "map_of [(''nodes'', PList example_nodes), (''edges'', PList example_edges)] ''view''
              = None"
    by simp
  note t3 = workflow_request_needs_three_fields
    [of "[(''nodes'', PList example_nodes), (''edges'', PList example_edges), (''view'', PDict [])]"
        example_nodes example_edges "[]" "example_executor"]
  note t2 = workflow_request_needs_three_fields
    [of "[(''nodes'', PList example_nodes), (''edges'', PList example_edges)]"
        _ _ _ "example_executor"]
  from t3 h3 have a: "Workflow_validate three_field_request = Inr example_workflow"
    and b: "post_node_execute example_executor three_field_request =
       execute_workflow example_executor example_workflow"
    unfolding three_field_request_def example_workflow_def by blast+
  from t2 h2 have c: "post_node_execute example_executor two_field_request =
       Inl (HTTPException 422 ''Unprocessable Entity'')"
    unfolding two_field_request_def by blast
  from a b c show ?thesis by blast
qed

section \<open>Properties of the node registry endpoints\<close>

lemma categorize_filter:
  "list_all is_dict ps \<Longrightarrow>
     categorize ps basic advanced =
       Inr (basic @ filter (\<lambda>q. \<not> is_optional q) ps, advanced @ filter is_optional ps)"
proof (induction ps arbitrary: basic advanced)
  case Nil
  then show ?case by simp
next
  case (Cons q ps)
  from Cons.prems obtain kvs where q: "q = PDict kvs"
    by (cases q) simp_all
  from Cons.prems have ps: "list_all is_dict ps" by simp
  show ?case
    by (simp add: q Cons.IH [OF ps] is_optional_def)
qed

lemma categorized_response_well_formed:
  assumes "well_formed_node node"
  shows "categorized_response node_id node =
     Inr (PDict [(''node_id'', PStr node_id),
                 (''node_name'', field_or node ''nodeName'' (PStr [])),
                 (''description'', field_or node ''description'' (PStr [])),
                 (''basic_parameters'',
                    PList (filter (\<lambda>q. \<not> is_optional q) (declared_parameters node))),
                 (''advanced_parameters'', PList (filter is_optional (declared_parameters node))),
                 (''has_advanced'', PBool (filter is_optional (declared_parameters node) \<noteq> []))])"
proof -
  from assms obtain kvs where node: "node = PDict kvs"
    by (cases node) (simp_all add: well_formed_node_def)
  show ?thesis
  proof (cases "map_of kvs ''parameters''")
    case None
    then show ?thesis
      by (simp add: node categorized_response_def declared_parameters_def field_or_def)
  next
    case (Some v)
    with assms node obtain ps where v: "v = PList ps" and ps: "list_all is_dict ps"
      by (cases v) (simp_all add: well_formed_node_def)
    from Some v show ?thesis
      by (simp add: node categorized_response_def declared_parameters_def field_or_def
          categorize_filter [OF ps])
  qed
qed

lemma well_formed_node_id:
  "well_formed_node node \<Longrightarrow> \<exists>i. py_getitem node ''id'' = Inr i"
  by (cases node) (auto simp: well_formed_node_def)

lemma categorized_parameters_try_found:
  "list_all well_formed_node reg \<Longrightarrow> find (has_id node_id) reg = Some node \<Longrightarrow>
     categorized_parameters_try node_id reg = categorized_response node_id node"
proof (induction reg)
  case Nil
  then show ?case by simp
next
  case (Cons n reg)
  from Cons.prems(1) obtain i where i: "py_getitem n ''id'' = Inr i"
    using well_formed_node_id by auto
  show ?case
  proof (cases "i = PStr node_id")
    case True
    with i Cons.prems(2) show ?thesis by (simp add: has_id_def)
  next
    case False
    with i Cons show ?thesis by (simp add: has_id_def)
  qed
qed

lemma example_registry_well_formed:
  "list_all well_formed_node example_registry"
  by (simp add: example_registry_def well_formed_node_def)

lemma example_registry_find:
  "find (has_id ''chat'') example_registry = Some (example_registry ! 1)"
  by (simp add: example_registry_def has_id_def)

text \<open>
  Claim C8. For every id of a registered node, in a registry of well-formed node
  dictionaries, the categorized-parameters endpoint answers for the first node with that
  id: \<open>basic_parameters\<close> are the node's declared parameters that are not marked optional
  and \<open>advanced_parameters\<close> those that are, each in the order of the declaration, so every
  parameter lands in exactly one of the two lists; \<open>has_advanced\<close> is true exactly when
  \<open>advanced_parameters\<close> is not empty; and the process state, the registry with it, is the
  same after the call.
\<close>

theorem get_categorized_parameters_partition:
  assumes "list_all well_formed_node (NODE_REGISTRY p)"
    and "find (has_id node_id) (NODE_REGISTRY p) = Some node"
  shows "\<exists>basic advanced has_advanced.
           get_categorized_parameters node_id p =
             (Inr (PDict [(''node_id'', PStr node_id),
                          (''node_name'', field_or node ''nodeName'' (PStr [])),
                          (''description'', field_or node ''description'' (PStr [])),
                          (''basic_parameters'', PList basic),
                          (''advanced_parameters'', PList advanced),
                          (''has_advanced'', PBool has_advanced)]), p)
         \<and> basic = filter (\<lambda>q. \<not> is_optional q) (declared_parameters node)
         \<and> advanced = filter is_optional (declared_parameters node)
         \<and> length basic + length advanced = length (declared_parameters node)
         \<and> set basic \<union> set advanced = set (declared_parameters node)
         \<and> set basic \<inter> set advanced = {}
         \<and> (has_advanced \<longleftrightarrow> advanced \<noteq> [])
         \<and> NODE_REGISTRY (snd (get_categorized_parameters node_id p)) = NODE_REGISTRY p"
proof -
  let ?ps = "declared_parameters node"
  let ?basic = "filter (\<lambda>q. \<not> is_optional q) ?ps"
  let ?advanced = "filter is_optional ?ps"
  from assms(2) have "node \<in> set (NODE_REGISTRY p)"
    by (auto simp: find_Some_iff)
  with assms(1) have wf: "well_formed_node node"
    by (simp add: list_all_iff)
  have "categorized_parameters_try node_id (get_node_registry p) = categorized_response node_id node"
    using assms by (simp add: get_node_registry_def categorized_parameters_try_found)
  then have resp: "get_categorized_parameters node_id p =
             (Inr (PDict [(''node_id'', PStr node_id),
                          (''node_name'', field_or node ''nodeName'' (PStr [])),
                          (''description'', field_or node ''description'' (PStr [])),
                          (''basic_parameters'', PList ?basic),
                          (''advanced_parameters'', PList ?advanced),
                          (''has_advanced'', PBool (?advanced \<noteq> []))]), p)"
    by (simp add: get_categorized_parameters_def categorized_response_well_formed [OF wf]
        reraise_http_def)
  have len: "length ?basic + length ?advanced = length ?ps"
    using sum_length_filter_compl [of is_optional ?ps] by simp
  have un: "set ?basic \<union> set ?advanced = set ?ps" by auto
  have dis: "set ?basic \<inter> set ?advanced = {}" by auto
  have st: "NODE_REGISTRY (snd (get_categorized_parameters node_id p)) = NODE_REGISTRY p"
    by (simp add: get_categorized_parameters_def)
  from resp len un dis st show ?thesis by blast
qed

theorem get_categorized_parameters_partition_witness:
  "list_all well_formed_node (NODE_REGISTRY example_process)
   \<and> find (has_id ''chat'') (NODE_REGISTRY example_process) = Some (example_registry ! 1)
   \<and> get_categorized_parameters ''chat'' example_process =
       (Inr (PDict [(''node_id'', PStr ''chat''),
                    (''node_name'', PStr ''Chat''),
                    (''description'', PStr ''chat model''),
                    (''basic_parameters'',
                       PList [PDict [(''id'', PStr ''model''), (''optional'', PBool False)],
                              PDict [(''id'', PStr ''prompt'')]]),
                    (''advanced_parameters'',
                       PList [PDict [(''id'', PStr ''temperature''), (''optional'', PBool True)],
                              PDict [(''id'', PStr ''top_p''), (''optional'', PBool True)]]),
                    (''has_advanced'', PBool True)]), example_process)"
proof -
  have reg: "NODE_REGISTRY example_process = example_registry"
    by (simp add: example_process_def)
  have wf: "list_all well_formed_node (NODE_REGISTRY example_process)"
    by (simp add: reg example_registry_well_formed)
  have fd: "find (has_id ''chat'') (NODE_REGISTRY example_process) = Some (example_registry ! 1)"
    by (simp add: reg example_registry_find)
  from get_categorized_parameters_partition [OF wf fd]
  obtain basic advanced has_advanced where
    r: "get_categorized_parameters ''chat'' example_process =
             (Inr (PDict [(''node_id'', PStr ''chat''),
                          (''node_name'', field_or (example_registry ! 1) ''nodeName'' (PStr [])),
                          (''description'', field_or (example_registry ! 1) ''description'' (PStr [])),
                          (''basic_parameters'', PList basic),
                          (''advanced_parameters'', PList advanced),
                          (''has_advanced'', PBool has_advanced)]), example_process)"
    and b: "basic = filter (\<lambda>q. \<not> is_optional q) (declared_parameters (example_registry ! 1))"
    and a: "advanced = filter is_optional (declared_parameters (example_registry ! 1))"
    and h: "has_advanced \<longleftrightarrow> advanced \<noteq> []"
    by blast
  have b': "basic = [PDict [(''id'', PStr ''model''), (''optional'', PBool False)],
                     PDict [(''id'', PStr ''prompt'')]]"
    unfolding b by (simp add: example_registry_def declared_parameters_def is_optional_def)
  have a': "advanced = [PDict [(''id'', PStr ''temperature''), (''optional'', PBool True)],
                        PDict [(''id'', PStr ''top_p''), (''optional'', PBool True)]]"
    unfolding a by (simp add: example_registry_def declared_parameters_def is_optional_def)
  have n: "field_or (example_registry ! 1) ''nodeName'' (PStr []) = PStr ''Chat''"
    "field_or (example_registry ! 1) ''description'' (PStr []) = PStr ''chat model''"
    by (simp_all add: example_registry_def field_or_def)
  from h a' have h': "has_advanced = True" by simp
  from r show ?thesis
    unfolding b' a' n h' using wf fd by (intro conjI)
qed

section \<open>The process state between requests\<close>

lemma get_categorized_parameters_registry_only:
  "NODE_REGISTRY p = NODE_REGISTRY p' \<Longrightarrow>
     fst (get_categorized_parameters node_id p) = fst (get_categorized_parameters node_id p')"
  by (simp add: get_categorized_parameters_def get_node_registry_def)



lemma serve_Execute_state:
  "snd (serve executor run_discovery generate_json_spec (Execute body) p) =
     (case Workflow_validate body of
        Inl errs \<Rightarrow> p
      | Inr workflow \<Rightarrow> snd (executor (Workflow_dict workflow) p))"
  by (simp add: serve_def execute_workflow_in_def split: sum.splits)


lemma serve_all_Cons:
  "serve_all executor run_discovery generate_json_spec (req # rest) p =
     (fst (serve executor run_discovery generate_json_spec req p)
        # fst (serve_all executor run_discovery generate_json_spec rest
                 (snd (serve executor run_discovery generate_json_spec req p))),
      snd (serve_all executor run_discovery generate_json_spec rest
             (snd (serve executor run_discovery generate_json_spec req p))))"
  by (simp split: prod.splits)

lemma serve_all_length:
  "length (fst (serve_all executor run_discovery generate_json_spec rs p)) = length rs"
  by (induction rs arbitrary: p) (simp_all add: serve_all_Cons del: serve_all.simps(2))








section \<open>Properties of the dependency scheduler\<close>

subsection \<open>The counts are the pending in-degrees\<close>

lemma pending_split:
  "D \<inter> B = {} \<Longrightarrow>
     pending_in_degree es D n =
       pending_in_degree es (D \<union> B) n
       + length (filter (\<lambda>e. target_instance_id e = n \<and> source_instance_id e \<in> B) es)"
  by (induction es) (auto simp: pending_in_degree_def)

lemma decrement_dependents_apply:
  "decrement_dependents es batch deg n =
     deg n - length (filter (\<lambda>e. target_instance_id e = n \<and> source_instance_id e \<in> set batch) es)"
  unfolding decrement_dependents_def
  by (induction es arbitrary: deg) auto

lemma decrement_pending:
  assumes "D \<inter> set batch = {}"
  shows "decrement_dependents es batch (pending_in_degree es D) =
           pending_in_degree es (D \<union> set batch)"
proof
  fix n
  show "decrement_dependents es batch (pending_in_degree es D) n =
          pending_in_degree es (D \<union> set batch) n"
    using pending_split [OF assms, of es n] by (simp add: decrement_dependents_apply)
qed

lemma in_degree_pending: "in_degree es = pending_in_degree es {}"
  by (rule ext) (simp add: in_degree_def pending_in_degree_def)

lemma pending_zero_iff:
  "pending_in_degree es D n = 0 \<longleftrightarrow>
     (\<forall>e\<in>set es. target_instance_id e = n \<longrightarrow> source_instance_id e \<in> D)"
  by (auto simp: pending_in_degree_def filter_empty_conv)

lemma set_ready: "set (ready deg xs) = {n \<in> set xs. deg n = 0}"
  by (auto simp: ready_def)

lemma set_waiting: "set (waiting deg xs) = {n \<in> set xs. deg n \<noteq> 0}"
  by (auto simp: waiting_def)

lemma ready_waiting_disjoint: "set (ready deg xs) \<inter> set (waiting deg xs) = {}"
  by (auto simp: set_ready set_waiting)

lemma ready_waiting_union: "set (ready deg xs) \<union> set (waiting deg xs) = set xs"
  by (auto simp: set_ready set_waiting)

subsection \<open>One round of the reduction\<close>

lemma kahn_Nil: "kahn es deg [] = Inr []"
  by (simp add: kahn.simps)

lemma kahn_stalled:
  "remaining \<noteq> [] \<Longrightarrow> ready deg remaining = [] \<Longrightarrow>
     kahn es deg remaining = Inl (CycleError remaining)"
  by (subst kahn.simps) simp

lemma kahn_round:
  "remaining \<noteq> [] \<Longrightarrow> ready deg remaining \<noteq> [] \<Longrightarrow>
     kahn es deg remaining =
       (case kahn es (decrement_dependents es (ready deg remaining) deg) (waiting deg remaining) of
          Inl err \<Rightarrow> Inl err
        | Inr batches \<Rightarrow> Inr (ready deg remaining # batches))"
  by (subst kahn.simps) simp

subsection \<open>The batches partition the instances\<close>

lemma kahn_partition:
  "kahn es deg remaining = Inr bs \<Longrightarrow>
     set (concat bs) = set remaining
     \<and> (distinct remaining \<longrightarrow> distinct (concat bs))
     \<and> [] \<notin> set bs"
proof (induction es deg remaining arbitrary: bs rule: kahn.induct)
  case (1 es deg remaining)
  show ?case
  proof (cases "remaining = []")
    case True
    with "1.prems" show ?thesis by (simp add: kahn_Nil)
  next
    case False
    show ?thesis
    proof (cases "ready deg remaining = []")
      case True
      with False "1.prems" show ?thesis by (simp add: kahn_stalled)
    next
      case nonempty: False
      let ?B = "ready deg remaining"
      from "1.prems" False nonempty obtain bs' where
        rec: "kahn es (decrement_dependents es ?B deg) (waiting deg remaining) = Inr bs'"
        and bs: "bs = ?B # bs'"
        by (auto simp: kahn_round split: sum.splits)
      from "1.IH" [OF False nonempty rec]
      have ih: "set (concat bs') = set (waiting deg remaining)"
        "distinct (waiting deg remaining) \<longrightarrow> distinct (concat bs')"
        "[] \<notin> set bs'"
        by simp_all
      have s: "set (concat bs) = set remaining"
        using ih(1) ready_waiting_union [of deg remaining] by (simp add: bs)
      have d: "distinct remaining \<longrightarrow> distinct (concat bs)"
      proof
        assume dr: "distinct remaining"
        then have "distinct ?B" "distinct (waiting deg remaining)"
          by (simp_all add: ready_def waiting_def)
        with ih(1,2) ready_waiting_disjoint [of deg remaining]
        show "distinct (concat bs)" by (simp add: bs)
      qed
      from ih(3) nonempty have "[] \<notin> set bs" by (auto simp: bs)
      with s d show ?thesis by simp
    qed
  qed
qed

subsection \<open>Every edge goes from an earlier batch to a later one\<close>

lemma kahn_edge_order:
  "kahn es deg remaining = Inr bs \<Longrightarrow> deg = pending_in_degree es D \<Longrightarrow>
   set remaining \<inter> D = {} \<Longrightarrow> e \<in> set es \<Longrightarrow>
   source_instance_id e \<in> set remaining \<Longrightarrow> target_instance_id e \<in> set remaining \<Longrightarrow>
     batch_index bs (source_instance_id e) < batch_index bs (target_instance_id e)"
proof (induction es deg remaining arbitrary: bs D rule: kahn.induct)
  case (1 es deg remaining)
  from "1.prems"(5) have False: "remaining \<noteq> []" by auto
  let ?B = "ready deg remaining"
  let ?W = "waiting deg remaining"
  let ?s = "source_instance_id e" and ?t = "target_instance_id e"
  have nonempty: "?B \<noteq> []"
  proof
    assume "?B = []"
    with False "1.prems"(1) show False by (simp add: kahn_stalled)
  qed
  from "1.prems"(1) False nonempty obtain bs' where
    rec: "kahn es (decrement_dependents es ?B deg) ?W = Inr bs'"
    and bs: "bs = ?B # bs'"
    by (auto simp: kahn_round split: sum.splits)
  from "1.prems"(3,5) have sD: "?s \<notin> D" by auto
  with "1.prems"(4) have "pending_in_degree es D ?t \<noteq> 0"
    by (auto simp: pending_zero_iff)
  with "1.prems"(2) have "deg ?t \<noteq> 0" by simp
  with "1.prems"(6) have tW: "?t \<in> set ?W" and tB: "?t \<notin> set ?B"
    by (simp_all add: set_waiting set_ready)
  show ?case
  proof (cases "?s \<in> set ?B")
    case True
    with tB show ?thesis by (simp add: bs)
  next
    case sB: False
    with "1.prems"(5) have sW: "?s \<in> set ?W"
      using ready_waiting_union [of deg remaining] by auto
    have disj: "D \<inter> set ?B = {}"
      using "1.prems"(3) by (auto simp: set_ready)
    have deg': "decrement_dependents es ?B deg = pending_in_degree es (D \<union> set ?B)"
      using decrement_pending [OF disj] "1.prems"(2) by simp
    have disj': "set ?W \<inter> (D \<union> set ?B) = {}"
      using "1.prems"(3) by (auto simp: set_ready set_waiting)
    from "1.IH" [OF False nonempty rec deg' disj' "1.prems"(4) sW tW]
    have "batch_index bs' ?s < batch_index bs' ?t" .
    with sB tB show ?thesis by (simp add: bs)
  qed
qed

subsection \<open>Every instance comes after its sources\<close>

lemma sources_first_append:
  "sources_first es before (xs @ ys) \<longleftrightarrow>
     sources_first es before xs \<and> sources_first es (before @ xs) ys"
  by (induction xs arbitrary: before) auto

lemma sources_first_ready:
  "distinct xs \<Longrightarrow> set xs \<inter> set before = {} \<Longrightarrow>
   (\<forall>x\<in>set xs. \<forall>e\<in>set es. target_instance_id e = x \<longrightarrow> source_instance_id e \<in> set before) \<Longrightarrow>
     sources_first es before xs"
proof (induction xs arbitrary: before)
  case Nil
  then show ?case by simp
next
  case (Cons x xs)
  have "sources_first es (before @ [x]) xs"
    using Cons.prems by (intro Cons.IH) auto
  with Cons.prems show ?case by (auto simp: list_all_iff)
qed

lemma kahn_sources_first:
  "kahn es deg remaining = Inr bs \<Longrightarrow> deg = pending_in_degree es (set before) \<Longrightarrow>
   set remaining \<inter> set before = {} \<Longrightarrow> distinct remaining \<Longrightarrow>
     sources_first es before (concat bs)"
proof (induction es deg remaining arbitrary: bs before rule: kahn.induct)
  case (1 es deg remaining)
  show ?case
  proof (cases "remaining = []")
    case True
    with "1.prems"(1) show ?thesis by (simp add: kahn_Nil)
  next
    case False
    let ?B = "ready deg remaining"
    let ?W = "waiting deg remaining"
    have nonempty: "?B \<noteq> []"
    proof
      assume "?B = []"
      with False "1.prems"(1) show False by (simp add: kahn_stalled)
    qed
    from "1.prems"(1) False nonempty obtain bs' where
      rec: "kahn es (decrement_dependents es ?B deg) ?W = Inr bs'"
      and bs: "bs = ?B # bs'"
      by (auto simp: kahn_round split: sum.splits)
    have disj: "set before \<inter> set ?B = {}"
      using "1.prems"(3) by (auto simp: set_ready)
    have deg': "decrement_dependents es ?B deg = pending_in_degree es (set (before @ ?B))"
      using decrement_pending [OF disj] "1.prems"(2) by simp
    have disj': "set ?W \<inter> set (before @ ?B) = {}"
      using "1.prems"(3) by (auto simp: set_ready set_waiting)
    have dW: "distinct ?W" using "1.prems"(4) by (simp add: waiting_def)
    from "1.IH" [OF False nonempty rec deg' disj' dW]
    have tail: "sources_first es (before @ ?B) (concat bs')" .
    have dB: "distinct ?B" using "1.prems"(4) by (simp add: ready_def)
    have "\<forall>x\<in>set ?B. \<forall>e\<in>set es. target_instance_id e = x \<longrightarrow> source_instance_id e \<in> set before"
      using "1.prems"(2) by (auto simp: set_ready pending_zero_iff)
    with dB disj have "sources_first es before ?B"
      by (intro sources_first_ready) auto
    with tail show ?thesis by (simp add: bs sources_first_append)
  qed
qed

subsection \<open>A stalled round leaves instances that depend on each other\<close>

lemma kahn_CycleError:
  "kahn es deg remaining = Inl err \<Longrightarrow> deg = pending_in_degree es D \<Longrightarrow>
   set remaining \<inter> D = {} \<Longrightarrow> (\<forall>e\<in>set es. source_instance_id e \<in> D \<union> set remaining) \<Longrightarrow>
     \<exists>xs. err = CycleError xs \<and> xs \<noteq> [] \<and> set xs \<subseteq> set remaining
        \<and> (\<forall>x\<in>set xs. \<exists>e\<in>set es. target_instance_id e = x \<and> source_instance_id e \<in> set xs)"
proof (induction es deg remaining arbitrary: D rule: kahn.induct)
  case (1 es deg remaining)
  from "1.prems"(1) have False: "remaining \<noteq> []" by (auto simp: kahn_Nil)
  let ?B = "ready deg remaining"
  let ?W = "waiting deg remaining"
  show ?case
  proof (cases "?B = []")
    case True
    with False "1.prems"(1) have err: "err = CycleError remaining"
      by (simp add: kahn_stalled)
    have "\<forall>x\<in>set remaining. \<exists>e\<in>set es. target_instance_id e = x \<and> source_instance_id e \<in> set remaining"
    proof
      fix x assume x: "x \<in> set remaining"
      with True have "deg x \<noteq> 0"
        by (auto simp: ready_def filter_empty_conv)
      with "1.prems"(2) obtain e where e: "e \<in> set es" "target_instance_id e = x"
        "source_instance_id e \<notin> D"
        by (auto simp: pending_zero_iff)
      with "1.prems"(4) have "source_instance_id e \<in> set remaining" by auto
      with e show "\<exists>e\<in>set es. target_instance_id e = x \<and> source_instance_id e \<in> set remaining"
        by blast
    qed
    with err False show ?thesis by blast
  next
    case nonempty: False
    from "1.prems"(1) False nonempty have
      rec: "kahn es (decrement_dependents es ?B deg) ?W = Inl err"
      by (auto simp: kahn_round split: sum.splits)
    have disj: "D \<inter> set ?B = {}"
      using "1.prems"(3) by (auto simp: set_ready)
    have deg': "decrement_dependents es ?B deg = pending_in_degree es (D \<union> set ?B)"
      using decrement_pending [OF disj] "1.prems"(2) by simp
    have disj': "set ?W \<inter> (D \<union> set ?B) = {}"
      using "1.prems"(3) by (auto simp: set_ready set_waiting)
    have src: "\<forall>e\<in>set es. source_instance_id e \<in> (D \<union> set ?B) \<union> set ?W"
      using "1.prems"(4) ready_waiting_union [of deg remaining] by auto
    from "1.IH" [OF False nonempty rec deg' disj' src]
    obtain xs where "err = CycleError xs" "xs \<noteq> []" "set xs \<subseteq> set ?W"
      "\<forall>x\<in>set xs. \<exists>e\<in>set es. target_instance_id e = x \<and> source_instance_id e \<in> set xs"
      by blast
    moreover have "set ?W \<subseteq> set remaining" by (auto simp: set_waiting)
    ultimately show ?thesis by blast
  qed
qed

lemma mutual_dependency_not_acyclic:
  assumes "xs \<noteq> []"
    and "\<forall>x\<in>set xs. \<exists>e\<in>set es. target_instance_id e = x \<and> source_instance_id e \<in> set xs"
  shows "\<not> acyclic (dependency es)"
proof
  assume "acyclic (dependency es)"
  moreover have "finite (dependency es)" by (simp add: dependency_def)
  ultimately have w: "wf (dependency es)" by (simp add: finite_acyclic_wf)
  from assms(1) obtain x where x: "x \<in> set xs" by (cases xs) auto
  from w x obtain z where z: "z \<in> set xs"
    and zmin: "\<forall>y. (y, z) \<in> dependency es \<longrightarrow> y \<notin> set xs"
    using wfE_min [of "dependency es" x "set xs"] by blast
  from assms(2) z obtain e where e: "e \<in> set es" "target_instance_id e = z"
    "source_instance_id e \<in> set xs" by blast
  then have "(source_instance_id e, z) \<in> dependency es"
    by (force simp: dependency_def)
  with zmin e(3) show False by blast
qed

subsection \<open>Instances on a cycle are never scheduled\<close>

lemma kahn_keeps_cycles:
  "deg = pending_in_degree es D \<Longrightarrow> set remaining \<inter> D = {} \<Longrightarrow> C \<subseteq> set remaining \<Longrightarrow>
   (\<forall>x\<in>C. \<exists>e\<in>set es. target_instance_id e = x \<and> source_instance_id e \<in> C) \<Longrightarrow>
     (case kahn es deg remaining of
        Inr bs \<Rightarrow> C = {}
      | Inl err \<Rightarrow> \<exists>xs. err = CycleError xs \<and> C \<subseteq> set xs)"
proof (induction es deg remaining arbitrary: D rule: kahn.induct)
  case (1 es deg remaining)
  let ?B = "ready deg remaining"
  let ?W = "waiting deg remaining"
  show ?case
  proof (cases "remaining = []")
    case True
    with "1.prems"(3) show ?thesis by (simp add: kahn_Nil)
  next
    case False
    show ?thesis
    proof (cases "?B = []")
      case True
      with False "1.prems"(3) show ?thesis by (simp add: kahn_stalled)
    next
      case nonempty: False
      have disj: "D \<inter> set ?B = {}"
        using "1.prems"(2) by (auto simp: set_ready)
      have deg': "decrement_dependents es ?B deg = pending_in_degree es (D \<union> set ?B)"
        using decrement_pending [OF disj] "1.prems"(1) by simp
      have disj': "set ?W \<inter> (D \<union> set ?B) = {}"
        using "1.prems"(2) by (auto simp: set_ready set_waiting)
      have CW: "C \<subseteq> set ?W"
      proof
        fix x assume x: "x \<in> C"
        with "1.prems"(4) obtain e where e: "e \<in> set es" "target_instance_id e = x"
          "source_instance_id e \<in> C" by blast
        with "1.prems"(2,3) have "source_instance_id e \<notin> D" by auto
        with e have "pending_in_degree es D x \<noteq> 0" by (auto simp: pending_zero_iff)
        with "1.prems"(1,3) x show "x \<in> set ?W" by (auto simp: set_waiting)
      qed
      from "1.IH" [OF False nonempty deg' disj' CW "1.prems"(4)]
      have ih: "case kahn es (decrement_dependents es ?B deg) ?W of
                  Inr bs \<Rightarrow> C = {}
                | Inl err \<Rightarrow> \<exists>xs. err = CycleError xs \<and> C \<subseteq> set xs" .
      then show ?thesis
        by (cases "kahn es (decrement_dependents es ?B deg) ?W")
           (simp_all add: kahn_round [OF False nonempty])
    qed
  qed
qed

lemma on_cycle_has_source_on_cycle:
  assumes "(x, x) \<in> (dependency es)\<^sup>+"
  shows "\<exists>e\<in>set es. target_instance_id e = x
           \<and> (source_instance_id e, source_instance_id e) \<in> (dependency es)\<^sup>+"
proof -
  from tranclD2 [OF assms] obtain z where
    xz: "(x, z) \<in> (dependency es)\<^sup>*" and zx: "(z, x) \<in> dependency es" by blast
  from zx xz have "(z, z) \<in> (dependency es)\<^sup>+" by (rule rtrancl_into_trancl2)
  moreover from zx obtain e where "e \<in> set es" "source_instance_id e = z" "target_instance_id e = x"
    by (auto simp: dependency_def)
  ultimately show ?thesis by blast
qed

subsection \<open>The scheduler on the graphs of the examples\<close>

lemma order_example_graph: "order example_graph = Inr [[''A''], [''B'', ''C'']]"
  by (simp add: order_def example_graph_def instance_ids_def kahn.simps ready_def waiting_def
      decrement_dependents_def in_degree_def)

lemma order_cyclic_graph: "order cyclic_graph = Inl (CycleError [''A'', ''B''])"
  by (simp add: order_def cyclic_graph_def instance_ids_def kahn.simps ready_def waiting_def
      decrement_dependents_def in_degree_def)

lemma order_failing_graph: "order failing_graph = Inr [[''A''], [''B''], [''C'', ''D'']]"
  by (simp add: order_def failing_graph_def instance_ids_def kahn.simps ready_def waiting_def
      decrement_dependents_def in_degree_def)

lemma example_graph_well_formed: "well_formed_graph example_graph"
  by (simp add: well_formed_graph_def endpoints_resolve_def example_graph_def instance_ids_def)

lemma acyclic_empty: "acyclic ({} :: (string \<times> string) set)"
  by (simp add: acyclic_def)

lemma example_graph_acyclic: "acyclic (dependency (graph_edges example_graph))"
  by (simp add: dependency_def example_graph_def rtrancl_insert acyclic_empty)

lemma failing_graph_well_formed: "well_formed_graph failing_graph"
  by (simp add: well_formed_graph_def endpoints_resolve_def failing_graph_def instance_ids_def)

lemma failing_graph_acyclic: "acyclic (dependency (graph_edges failing_graph))"
  by (simp add: dependency_def failing_graph_def rtrancl_insert acyclic_empty)

lemma cyclic_graph_endpoints: "endpoints_resolve cyclic_graph"
  by (simp add: endpoints_resolve_def cyclic_graph_def instance_ids_def)

lemma cyclic_graph_cycle: "(''A'', ''A'') \<in> (dependency (graph_edges cyclic_graph))\<^sup>+"
proof -
  have "(''A'', ''B'') \<in> dependency (graph_edges cyclic_graph)"
    and "(''B'', ''A'') \<in> dependency (graph_edges cyclic_graph)"
    by (simp_all add: dependency_def cyclic_graph_def)
  then show ?thesis by (rule trancl_into_trancl [OF r_into_trancl])
qed

subsection \<open>The order of a well-formed acyclic graph\<close>

lemma in_unique_batch:
  "distinct (concat bs) \<Longrightarrow> i < length bs \<Longrightarrow> j < length bs \<Longrightarrow>
   x \<in> set (bs ! i) \<Longrightarrow> x \<in> set (bs ! j) \<Longrightarrow> i = j"
proof (induction bs arbitrary: i j)
  case Nil
  then show ?case by simp
next
  case (Cons b bs)
  show ?case
  proof (cases i)
    case 0
    show ?thesis
    proof (cases j)
      case (Suc j')
      with Cons.prems 0 have "x \<in> set b" and "x \<in> set (concat bs)"
        by (auto intro: nth_mem)
      with Cons.prems(1) show ?thesis by auto
    qed (simp add: 0)
  next
    case (Suc i')
    show ?thesis
    proof (cases j)
      case 0
      with Cons.prems Suc have "x \<in> set b" and "x \<in> set (concat bs)"
        by (auto intro: nth_mem)
      with Cons.prems(1) show ?thesis by auto
    next
      case (Suc j')
      with Cons.prems \<open>i = Suc i'\<close> Cons.IH [of i' j'] show ?thesis by simp
    qed
  qed
qed

lemma in_some_batch:
  assumes "x \<in> set (concat bs)"
  shows "\<exists>k<length bs. x \<in> set (bs ! k)"
proof -
  from assms obtain b where b: "b \<in> set bs" "x \<in> set b" by auto
  from b(1) obtain k where "k < length bs" "bs ! k = b"
    by (auto simp: in_set_conv_nth)
  with b(2) show ?thesis by blast
qed

lemma order_acyclic_returns:
  assumes "endpoints_resolve g" and "acyclic (dependency (graph_edges g))"
  shows "\<exists>bs. order g = Inr bs"
proof (cases "order g")
  case (Inr bs)
  then show ?thesis by blast
next
  case (Inl err)
  have src: "\<forall>e\<in>set (graph_edges g). source_instance_id e \<in> {} \<union> set (instance_ids g)"
    using assms(1) by (simp add: endpoints_resolve_def list_all_iff)
  from Inl have "kahn (graph_edges g) (pending_in_degree (graph_edges g) {}) (instance_ids g) = Inl err"
    by (simp add: order_def in_degree_pending)
  from kahn_CycleError [OF this refl _ src]
  obtain xs where "xs \<noteq> []"
    "\<forall>x\<in>set xs. \<exists>e\<in>set (graph_edges g). target_instance_id e = x \<and> source_instance_id e \<in> set xs"
    by auto
  then have "\<not> acyclic (dependency (graph_edges g))"
    by (rule mutual_dependency_not_acyclic)
  with assms(2) show ?thesis by blast
qed

text \<open>
  Claim C1. For every well-formed acyclic workflow graph, \<open>order\<close> returns a sequence of
  batches that partitions the instance ids: no batch is empty or repeated, no instance
  occurs twice, the instances of the batches are those of the graph, and every instance
  is in exactly one batch. For every edge of the graph the index of the batch of its
  source is strictly less than the index of the batch of its target.
\<close>

theorem order_partitions_and_respects_edges:
  assumes "well_formed_graph g" and "acyclic (dependency (graph_edges g))"
  shows "\<exists>batches. order g = Inr batches
           \<and> [] \<notin> set batches
           \<and> distinct batches
           \<and> distinct (concat batches)
           \<and> set (concat batches) = set (instance_ids g)
           \<and> (\<forall>i\<in>set (instance_ids g). \<exists>!k. k < length batches \<and> i \<in> set (batches ! k))
           \<and> (\<forall>e\<in>set (graph_edges g).
                 batch_index batches (source_instance_id e)
                   < batch_index batches (target_instance_id e))"
proof -
  let ?es = "graph_edges g" and ?ids = "instance_ids g"
  from assms(1) have er: "endpoints_resolve g" and dist: "distinct ?ids"
    by (simp_all add: well_formed_graph_def)
  from order_acyclic_returns [OF er assms(2)] obtain bs where bs: "order g = Inr bs" by blast
  then have k: "kahn ?es (pending_in_degree ?es {}) ?ids = Inr bs"
    by (simp add: order_def in_degree_pending)
  from kahn_partition [OF k] dist
  have part: "set (concat bs) = set ?ids" "distinct (concat bs)" "[] \<notin> set bs"
    by simp_all
  from part(2,3) have db: "distinct bs"
    by (simp add: distinct_concat_iff)
  have uniq: "\<forall>i\<in>set ?ids. \<exists>!k. k < length bs \<and> i \<in> set (bs ! k)"
  proof
    fix i assume "i \<in> set ?ids"
    with part(1) have "i \<in> set (concat bs)" by simp
    from in_some_batch [OF this] obtain k where "k < length bs" "i \<in> set (bs ! k)" by blast
    then show "\<exists>!k. k < length bs \<and> i \<in> set (bs ! k)"
      using in_unique_batch [OF part(2)] by blast
  qed
  have edges: "\<forall>e\<in>set ?es. batch_index bs (source_instance_id e) < batch_index bs (target_instance_id e)"
  proof
    fix e assume e: "e \<in> set ?es"
    with er have "source_instance_id e \<in> set ?ids" "target_instance_id e \<in> set ?ids"
      by (simp_all add: endpoints_resolve_def list_all_iff)
    with kahn_edge_order [OF k refl _ e]
    show "batch_index bs (source_instance_id e) < batch_index bs (target_instance_id e)"
      by simp
  qed
  from bs part db uniq edges show ?thesis by blast
qed

theorem order_partitions_and_respects_edges_witness:
  "well_formed_graph example_graph
   \<and> acyclic (dependency (graph_edges example_graph))
   \<and> order example_graph = Inr [[''A''], [''B'', ''C'']]
   \<and> set (concat [[''A''], [''B'', ''C'']]) = set (instance_ids example_graph)
   \<and> batch_index [[''A''], [''B'', ''C'']] ''A'' < batch_index [[''A''], [''B'', ''C'']] ''C''"
proof -
  from order_partitions_and_respects_edges [OF example_graph_well_formed example_graph_acyclic]
  obtain batches where b: "order example_graph = Inr batches"
    and s: "set (concat batches) = set (instance_ids example_graph)"
    and e: "\<forall>e\<in>set (graph_edges example_graph).
                 batch_index batches (source_instance_id e)
                   < batch_index batches (target_instance_id e)"
    by blast
  from b have eq: "batches = [[''A''], [''B'', ''C'']]"
    by (simp add: order_example_graph)
  have "\<lparr>source_instance_id = ''A'', source_port = ''out'',
         target_instance_id = ''C'', target_port = ''x''\<rparr> \<in> set (graph_edges example_graph)"
    by (simp add: example_graph_def)
  with e have "batch_index batches ''A'' < batch_index batches ''C''"
    by fastforce
  with s b example_graph_well_formed example_graph_acyclic show ?thesis
    unfolding eq by (intro conjI)
qed

subsection \<open>The order of a graph with a cycle\<close>

lemma order_half_graph: "order half_graph = Inr [[''A''], [''B'']]"
  by (simp add: order_def half_graph_def instance_ids_def kahn.simps ready_def waiting_def
      decrement_dependents_def in_degree_def)

lemma execute_graph_no_order:
  "order g = Inl err \<Longrightarrow>
     execute_graph validate reg g = (if validate g = [] then [err] else validate g, initial_state)"
  by (cases "validate g") (simp_all add: execute_graph_def)

text \<open>
  Claim C2. For every workflow graph, its edges between its own instances, whose edge
  set contains a directed cycle, \<open>order\<close> returns \<open>CycleError\<close>; the error names
  instances of the graph only, and among them every instance that lies on a cycle. With
  any validator and any registry the execution of the graph ends in errors, the
  \<open>CycleError\<close> when the validator has found nothing, and the state of the engine in its
  outcome is the initial one: the engine has not been called, no execution function has
  been invoked and no execution result has been produced for any instance.
\<close>

theorem order_reports_cycle:
  assumes "endpoints_resolve g" and "(x, x) \<in> (dependency (graph_edges g))\<^sup>+"
  shows "\<exists>xs. order g = Inl (CycleError xs)
           \<and> x \<in> set xs
           \<and> (\<forall>y. (y, y) \<in> (dependency (graph_edges g))\<^sup>+ \<longrightarrow> y \<in> set xs)
           \<and> set xs \<subseteq> set (instance_ids g)
           \<and> (\<forall>validate reg.
                 execute_graph validate reg g =
                   (if validate g = [] then [CycleError xs] else validate g, initial_state))
           \<and> (\<forall>validate reg.
                 fst (execute_graph validate reg g) \<noteq> []
               \<and> engine_calls (execute_graph validate reg g) = 0)
           \<and> (\<forall>validate reg i.
                 invocation_count (execute_graph validate reg g) i = 0
               \<and> produced_result (execute_graph validate reg g) i = None)"
proof -
  let ?es = "graph_edges g" and ?ids = "instance_ids g"
  let ?C = "{y. (y, y) \<in> (dependency ?es)\<^sup>+}"
  have pred: "\<forall>y\<in>?C. \<exists>e\<in>set ?es. target_instance_id e = y \<and> source_instance_id e \<in> ?C"
    using on_cycle_has_source_on_cycle by blast
  have sub: "?C \<subseteq> set ?ids"
  proof
    fix y assume "y \<in> ?C"
    with pred obtain e where "e \<in> set ?es" "target_instance_id e = y" by blast
    with assms(1) show "y \<in> set ?ids"
      by (auto simp: endpoints_resolve_def list_all_iff)
  qed
  have o: "order g = kahn ?es (pending_in_degree ?es {}) ?ids"
    by (simp add: order_def in_degree_pending)
  from kahn_keeps_cycles [OF refl _ sub pred, of "{}"]
  have "case order g of Inr bs \<Rightarrow> ?C = {} | Inl err \<Rightarrow> \<exists>xs. err = CycleError xs \<and> ?C \<subseteq> set xs"
    by (simp add: o)
  moreover from assms(2) have xC: "x \<in> ?C" by simp
  ultimately obtain xs where xs: "order g = Inl (CycleError xs)" and C: "?C \<subseteq> set xs"
    by (cases "order g") auto
  have src: "\<forall>e\<in>set ?es. source_instance_id e \<in> {} \<union> set ?ids"
    using assms(1) by (simp add: endpoints_resolve_def list_all_iff)
  from xs have "kahn ?es (pending_in_degree ?es {}) ?ids = Inl (CycleError xs)"
    by (simp add: o)
  from kahn_CycleError [OF this refl _ src] have ids: "set xs \<subseteq> set ?ids" by auto
  have ex: "execute_graph validate reg g =
              (if validate g = [] then [CycleError xs] else validate g, initial_state)"
    for validate reg
    by (rule execute_graph_no_order [OF xs])
  have errs: "fst (execute_graph validate reg g) \<noteq> []
              \<and> engine_calls (execute_graph validate reg g) = 0" for validate reg
    unfolding ex by (simp add: engine_calls_def initial_state_def)
  have none: "invocation_count (execute_graph validate reg g) i = 0
              \<and> produced_result (execute_graph validate reg g) i = None" for validate reg i
    unfolding ex by (simp add: invocation_count_def produced_result_def initial_state_def)
  from xs xC C ids ex errs none show ?thesis by blast
qed

theorem order_reports_cycle_witness:
  "endpoints_resolve cyclic_graph
   \<and> (''A'', ''A'') \<in> (dependency (graph_edges cyclic_graph))\<^sup>+
   \<and> order cyclic_graph = Inl (CycleError [''A'', ''B''])
   \<and> ''A'' \<in> set [''A'', ''B'']
   \<and> execute_graph no_violations example_node_registry cyclic_graph =
       ([CycleError [''A'', ''B'']], initial_state)
   \<and> engine_calls (execute_graph no_violations example_node_registry cyclic_graph) = 0
   \<and> invocation_count (execute_graph no_violations example_node_registry cyclic_graph) ''A'' = 0
   \<and> produced_result (execute_graph no_violations example_node_registry cyclic_graph) ''B'' = None"
proof -
  from order_reports_cycle [OF cyclic_graph_endpoints cyclic_graph_cycle]
  obtain xs where o: "order cyclic_graph = Inl (CycleError xs)"
    and x: "''A'' \<in> set xs"
    and e: "\<forall>validate reg.
                 execute_graph validate reg cyclic_graph =
                   (if validate cyclic_graph = [] then [CycleError xs] else validate cyclic_graph,
                    initial_state)"
    and c: "\<forall>validate reg.
                 fst (execute_graph validate reg cyclic_graph) \<noteq> []
               \<and> engine_calls (execute_graph validate reg cyclic_graph) = 0"
    and n: "\<forall>validate reg i.
                 invocation_count (execute_graph validate reg cyclic_graph) i = 0
               \<and> produced_result (execute_graph validate reg cyclic_graph) i = None"
    by blast
  from o have eq: "xs = [''A'', ''B'']" by (simp add: order_cyclic_graph)
  from e have "execute_graph no_violations example_node_registry cyclic_graph =
      (if no_violations cyclic_graph = [] then [CycleError xs] else no_violations cyclic_graph,
       initial_state)"
    by blast
  then have 1: "execute_graph no_violations example_node_registry cyclic_graph =
       ([CycleError xs], initial_state)"
    by (simp add: no_violations_def)
  from c have 2: "engine_calls (execute_graph no_violations example_node_registry cyclic_graph) = 0"
    by blast
  from n have "invocation_count (execute_graph no_violations example_node_registry cyclic_graph) ''A'' = 0"
    and "produced_result (execute_graph no_violations example_node_registry cyclic_graph) ''B'' = None"
    by blast+
  with o x cyclic_graph_endpoints cyclic_graph_cycle 1 2 show ?thesis
    unfolding eq by (intro conjI)
qed

section \<open>Properties of the execution engine\<close>

subsection \<open>Looking up instances and resolving inputs\<close>

lemma find_instance_Some:
  "find_instance g i = Some n \<Longrightarrow> instance_id n = i \<and> n \<in> set (graph_nodes g)"
  by (auto simp: find_instance_def find_Some_iff)

lemma find_instance_exists:
  "i \<in> set (instance_ids g) \<Longrightarrow> \<exists>n. find_instance g i = Some n"
  by (cases "find_instance g i") (auto simp: find_instance_def find_None_iff instance_ids_def)

lemma supplying_edge_Some:
  "supplying_edge g n p = Some e \<Longrightarrow>
     e \<in> set (graph_edges g) \<and> target_instance_id e = instance_id n \<and> target_port e = p"
  by (auto simp: supplying_edge_def find_Some_iff)

lemma resolve_parameter_cong:
  assumes "\<forall>e\<in>set (graph_edges g). target_instance_id e = instance_id n \<longrightarrow>
             res' (source_instance_id e) = res (source_instance_id e)"
  shows "resolve_parameter g res' n ps = resolve_parameter g res n ps"
proof (cases "supplying_edge g n (name ps)")
  case None
  then show ?thesis by (simp add: resolve_parameter_def split: option.splits)
next
  case (Some e)
  from supplying_edge_Some [OF Some] assms
  have "res' (source_instance_id e) = res (source_instance_id e)" by blast
  then have "read_output res' e = read_output res e" by (simp add: read_output_def)
  with Some show ?thesis by (simp add: resolve_parameter_def split: option.splits)
qed

lemma resolve_inputs_cong:
  assumes "\<forall>e\<in>set (graph_edges g). target_instance_id e = instance_id n \<longrightarrow>
             res' (source_instance_id e) = res (source_instance_id e)"
  shows "resolve_inputs g res' d n = resolve_inputs g res d n"
proof -
  have "resolve_all g res' n pss = resolve_all g res n pss" for pss
    by (induction pss) (simp_all add: resolve_parameter_cong [OF assms] split: option.splits)
  then show ?thesis by (simp add: resolve_inputs_def)
qed

lemma map_of_resolve_all:
  assumes "supplying_edge g n p = Some e" and "map_of (parameters n) p = None"
  shows "map_of (resolve_all g res n pss) p =
           (if p \<in> set (map name pss) then read_output res e else None)"
proof (induction pss)
  case Nil
  then show ?case by simp
next
  case (Cons ps pss)
  show ?case
  proof (cases "name ps = p")
    case True
    with assms have r: "resolve_parameter g res n ps = read_output res e"
      by (simp add: resolve_parameter_def)
    show ?thesis
    proof (cases "read_output res e")
      case None
      with r True Cons.IH show ?thesis by simp
    next
      case (Some v)
      with r True show ?thesis by simp
    qed
  next
    case False
    with Cons.IH show ?thesis
      by (cases "resolve_parameter g res n ps") simp_all
  qed
qed

subsection \<open>Descendants come later\<close>

lemma closed_under_sources_rtrancl:
  assumes "closed_under_sources es handled"
    and "(a, b) \<in> (dependency es)\<^sup>*"
  shows "b \<in> set handled \<longrightarrow> a \<in> set handled"
  using assms(2)
proof (induction rule: rtrancl_induct)
  case base
  show ?case by simp
next
  case (step y z)
  from step.hyps(2) obtain e where "e \<in> set es" "source_instance_id e = y" "target_instance_id e = z"
    by (auto simp: dependency_def)
  with assms(1) have "z \<in> set handled \<longrightarrow> y \<in> set handled"
    by (auto simp: closed_under_sources_def list_all_iff)
  with step.IH show ?case by blast
qed

lemma descendants_not_handled:
  assumes closed: "closed_under_sources (graph_edges g) handled"
    and x: "x \<notin> set handled"
    and src: "list_all (\<lambda>e. target_instance_id e = x \<longrightarrow> source_instance_id e \<in> set handled)
               (graph_edges g)"
  shows "descendants g x \<inter> set (handled @ [x]) = {}"
proof -
  let ?r = "dependency (graph_edges g)"
  have "y \<notin> set (handled @ [x])" if y: "(x, y) \<in> ?r\<^sup>+" for y
  proof
    assume "y \<in> set (handled @ [x])"
    then consider "y \<in> set handled" | "y = x" by auto
    then show False
    proof cases
      case 1
      from y have "(x, y) \<in> ?r\<^sup>*" by (rule trancl_into_rtrancl)
      with closed_under_sources_rtrancl [OF closed] 1 x show False by blast
    next
      case 2
      with y have "(x, x) \<in> ?r\<^sup>+" by simp
      from tranclD2 [OF this] obtain z where xz: "(x, z) \<in> ?r\<^sup>*" and zx: "(z, x) \<in> ?r"
        by blast
      from zx obtain e where "e \<in> set (graph_edges g)" "source_instance_id e = z"
        "target_instance_id e = x"
        by (auto simp: dependency_def)
      with src have "z \<in> set handled" by (auto simp: list_all_iff)
      with closed_under_sources_rtrancl [OF closed xz] x show False by blast
    qed
  qed
  then show ?thesis by (auto simp: descendants_def)
qed

subsection \<open>One step of the engine keeps the invariant\<close>

lemma count_list_append_other:
  "count_list (xs @ [y]) i = count_list xs i + (if y = i then 1 else 0)"
  by (induction xs) auto

lemma count_list_not_in: "i \<notin> set xs \<Longrightarrow> count_list xs i = 0"
  by (induction xs) auto

lemma has_failed_update:
  "has_failed (res(x \<mapsto> r)) y = (if y = x then status r \<noteq> Success else has_failed res y)"
  by (cases "status r") (simp_all add: has_failed_def)

lemma has_failed_result_of:
  "status (result_of returned) \<noteq> Success \<longleftrightarrow> (\<exists>err. returned = Inl err)"
  by (cases returned) (simp_all add: result_of_def)

lemma has_failed_dom: "has_failed res x \<Longrightarrow> x \<in> dom res"
  by (cases "res x") (auto simp: has_failed_def)

lemma engine_inv_invoked:
  "engine_inv reg g handled s \<Longrightarrow> fst ` set (invocations s) \<subseteq> set handled"
  unfolding engine_inv_def by (elim conjE)

lemma engine_inv_results:
  "engine_inv reg g handled s \<Longrightarrow> dom (results s) \<subseteq> set handled"
  unfolding engine_inv_def by (elim conjE)

lemma engine_inv_count:
  "engine_inv reg g handled s \<Longrightarrow>
     \<forall>i\<in>set handled. count_list (map fst (invocations s)) i = (if i \<in> skipped s then 0 else 1)"
  unfolding engine_inv_def by (elim conjE)

lemma engine_inv_no_result:
  "engine_inv reg g handled s \<Longrightarrow> \<forall>i\<in>set handled. (i \<in> skipped s) = (results s i = None)"
  unfolding engine_inv_def by (elim conjE)

lemma engine_inv_skipped:
  "engine_inv reg g handled s \<Longrightarrow>
     skipped s = (\<Union>x\<in>{x. has_failed (results s) x}. descendants g x)"
  unfolding engine_inv_def by (elim conjE)

lemma engine_inv_inputs:
  "engine_inv reg g handled s \<Longrightarrow>
     \<forall>(i, inputs)\<in>set (invocations s).
        \<exists>n d. find_instance g i = Some n \<and> reg (type_id n) = Some d
             \<and> inputs = resolve_inputs g (results s) d n
             \<and> results s i = Some (result_of (execute d inputs))"
  unfolding engine_inv_def by (elim conjE)

lemma engine_inv_skip:
  assumes inv: "engine_inv reg g handled s" and x: "x \<notin> set handled" and sk: "x \<in> skipped s"
  shows "engine_inv reg g (handled @ [x]) s"
proof -
  note a = engine_inv_invoked [OF inv] and b = engine_inv_results [OF inv]
    and c = engine_inv_count [OF inv] and e = engine_inv_no_result [OF inv]
    and f = engine_inv_skipped [OF inv] and h = engine_inv_inputs [OF inv]
  from a x have "x \<notin> set (map fst (invocations s))" by auto
  then have c0: "count_list (map fst (invocations s)) x = 0" by (rule count_list_not_in)
  from b x have r0: "results s x = None" by auto
  have 1: "fst ` set (invocations s) \<subseteq> set (handled @ [x])" using a by auto
  have 2: "dom (results s) \<subseteq> set (handled @ [x])" using b by auto
  have 3: "\<forall>i\<in>set (handled @ [x]).
             count_list (map fst (invocations s)) i = (if i \<in> skipped s then 0 else 1)"
    using c c0 sk by auto
  have 4: "\<forall>i\<in>set (handled @ [x]). (i \<in> skipped s) = (results s i = None)"
    using e r0 sk by auto
  from 1 2 3 4 f h show ?thesis unfolding engine_inv_def by (intro conjI)
qed

lemma engine_inv_invoke:
  assumes inv: "engine_inv reg g handled s"
    and closed: "closed_under_sources (graph_edges g) handled"
    and x: "x \<notin> set handled" and nsk: "x \<notin> skipped s"
    and src: "list_all (\<lambda>e. target_instance_id e = x \<longrightarrow> source_instance_id e \<in> set handled)
               (graph_edges g)"
    and n: "find_instance g x = Some n" and d: "reg (type_id n) = Some d"
    and r: "r = result_of (execute d (resolve_inputs g (results s) d n))"
    and extra: "extra = (if status r \<noteq> Success then descendants g x else {})"
  shows "engine_inv reg g (handled @ [x])
           (s\<lparr>results := (results s)(x \<mapsto> r), skipped := skipped s \<union> extra,
              invocations := invocations s @ [(x, resolve_inputs g (results s) d n)]\<rparr>)"
    (is "engine_inv reg g _ ?s'")
proof -
  note a = engine_inv_invoked [OF inv] and b = engine_inv_results [OF inv]
    and c = engine_inv_count [OF inv] and e = engine_inv_no_result [OF inv]
    and sk = engine_inv_skipped [OF inv] and f = engine_inv_inputs [OF inv]
  from descendants_not_handled [OF closed x src] extra
  have disj: "extra \<inter> set (handled @ [x]) = {}" by (simp split: if_splits)
  from a x have "x \<notin> set (map fst (invocations s))" by auto
  then have c0: "count_list (map fst (invocations s)) x = 0" by (rule count_list_not_in)
  from b x have r0: "results s x = None" by auto
  then have nf: "\<not> has_failed (results s) x" by (simp add: has_failed_def)
  have same: "resolve_inputs g ((results s)(x \<mapsto> r)) d' n' = resolve_inputs g (results s) d' n'"
    if "instance_id n' \<in> set (handled @ [x])" for d' n'
  proof (rule resolve_inputs_cong, intro ballI impI)
    fix ed assume ed: "ed \<in> set (graph_edges g)" "target_instance_id ed = instance_id n'"
    have "source_instance_id ed \<in> set handled"
    proof (cases "instance_id n' = x")
      case True
      with ed src show ?thesis by (auto simp: list_all_iff)
    next
      case False
      with that have "instance_id n' \<in> set handled" by auto
      with ed closed show ?thesis by (auto simp: closed_under_sources_def list_all_iff)
    qed
    with x have "source_instance_id ed \<noteq> x" by auto
    then show "((results s)(x \<mapsto> r)) (source_instance_id ed) = results s (source_instance_id ed)"
      by simp
  qed
  have 1: "fst ` set (invocations ?s') \<subseteq> set (handled @ [x])" using a by auto
  have 2: "dom (results ?s') \<subseteq> set (handled @ [x])" using b by auto
  have 3: "\<forall>i\<in>set (handled @ [x]).
             count_list (map fst (invocations ?s')) i = (if i \<in> skipped ?s' then 0 else 1)"
  proof
    fix i assume i: "i \<in> set (handled @ [x])"
    show "count_list (map fst (invocations ?s')) i = (if i \<in> skipped ?s' then 0 else 1)"
    proof (cases "i = x")
      case True
      with disj nsk c0 show ?thesis by (auto simp: count_list_append_other)
    next
      case False
      with i have ih: "i \<in> set handled" by auto
      with disj have "i \<notin> extra" by auto
      with c ih False show ?thesis by (simp add: count_list_append_other)
    qed
  qed
  have 4: "\<forall>i\<in>set (handled @ [x]). (i \<in> skipped ?s') = (results ?s' i = None)"
  proof
    fix i assume i: "i \<in> set (handled @ [x])"
    show "(i \<in> skipped ?s') = (results ?s' i = None)"
    proof (cases "i = x")
      case True
      with disj nsk show ?thesis by auto
    next
      case False
      with i have ih: "i \<in> set handled" by auto
      with disj have "i \<notin> extra" by auto
      with e ih False show ?thesis by simp
    qed
  qed
  have fs: "{y. has_failed (results ?s') y} =
              {y. has_failed (results s) y} \<union> (if status r \<noteq> Success then {x} else {})"
    using nf by (auto simp: has_failed_update)
  have 5: "skipped ?s' = (\<Union>y\<in>{y. has_failed (results ?s') y}. descendants g y)"
    unfolding fs using sk extra by auto
  have 6: "\<forall>(i, inputs)\<in>set (invocations ?s').
            \<exists>n d. find_instance g i = Some n \<and> reg (type_id n) = Some d
                 \<and> inputs = resolve_inputs g (results ?s') d n
                 \<and> results ?s' i = Some (result_of (execute d inputs))"
  proof (intro ballI, clarify)
    fix i inputs assume "(i, inputs) \<in> set (invocations ?s')"
    then consider "(i, inputs) \<in> set (invocations s)"
      | "i = x" "inputs = resolve_inputs g (results s) d n" by auto
    then show "\<exists>n d. find_instance g i = Some n \<and> reg (type_id n) = Some d
                 \<and> inputs = resolve_inputs g (results ?s') d n
                 \<and> results ?s' i = Some (result_of (execute d inputs))"
    proof cases
      case 1
      from bspec [OF f 1] obtain n' d' where n': "find_instance g i = Some n'"
        "reg (type_id n') = Some d'"
        "inputs = resolve_inputs g (results s) d' n'"
        "results s i = Some (result_of (execute d' inputs))" by auto
      from 1 a have ih: "i \<in> set handled" by force
      with x have "i \<noteq> x" by auto
      with n'(4) have "results ?s' i = Some (result_of (execute d' inputs))" by simp
      moreover from ih find_instance_Some [OF n'(1)]
      have "instance_id n' \<in> set (handled @ [x])" by simp
      from same [OF this] n'(3) have "inputs = resolve_inputs g (results ?s') d' n'" by simp
      ultimately show ?thesis using n'(1,2) by blast
    next
      case 2
      from find_instance_Some [OF n] have "instance_id n \<in> set (handled @ [x])" by simp
      from same [OF this] 2 have "inputs = resolve_inputs g (results ?s') d n" by simp
      moreover from 2 r have "results ?s' i = Some (result_of (execute d inputs))" by simp
      ultimately show ?thesis using 2(1) n d by blast
    qed
  qed
  from 1 2 3 4 5 6 show ?thesis unfolding engine_inv_def by (intro conjI)
qed

lemma run_instance_keeps_inv:
  assumes inv: "engine_inv reg g handled s"
    and closed: "closed_under_sources (graph_edges g) handled"
    and x: "x \<notin> set handled"
    and src: "list_all (\<lambda>e. target_instance_id e = x \<longrightarrow> source_instance_id e \<in> set handled)
               (graph_edges g)"
    and ids: "x \<in> set (instance_ids g)" and types: "types_resolve reg g"
  shows "\<exists>s'. run_instance reg g x s = (None, s') \<and> engine_inv reg g (handled @ [x]) s'"
proof (cases "x \<in> skipped s")
  case True
  with engine_inv_skip [OF inv x True] show ?thesis by (simp add: run_instance_def)
next
  case False
  from find_instance_exists [OF ids] obtain n where n: "find_instance g x = Some n" by blast
  with find_instance_Some [OF n] types obtain d where d: "reg (type_id n) = Some d"
    by (auto simp: types_resolve_def list_all_iff)
  let ?inputs = "resolve_inputs g (results s) d n"
  show ?thesis
  proof (cases "execute d ?inputs")
    case (Inr outs)
    have "engine_inv reg g (handled @ [x])
           (s\<lparr>results := (results s)(x \<mapsto> \<lparr>outputs = outs, status = Success\<rparr>),
              skipped := skipped s \<union> {},
              invocations := invocations s @ [(x, ?inputs)]\<rparr>)"
      by (rule engine_inv_invoke [OF inv closed x False src n d])
         (simp_all add: Inr result_of_def)
    with False n d Inr show ?thesis by (simp add: run_instance_def)
  next
    case (Inl err)
    have "engine_inv reg g (handled @ [x])
           (s\<lparr>results := (results s)(x \<mapsto> \<lparr>outputs = [], status = Failed err\<rparr>),
              skipped := skipped s \<union> descendants g x,
              invocations := invocations s @ [(x, ?inputs)]\<rparr>)"
      by (rule engine_inv_invoke [OF inv closed x False src n d])
         (simp_all add: Inl result_of_def)
    with False n d Inl show ?thesis by (simp add: run_instance_def)
  qed
qed

subsection \<open>The whole run\<close>

lemma closed_under_sources_snoc:
  "closed_under_sources es handled \<Longrightarrow>
   list_all (\<lambda>e. target_instance_id e = x \<longrightarrow> source_instance_id e \<in> set handled) es \<Longrightarrow>
     closed_under_sources es (handled @ [x])"
  by (auto simp: closed_under_sources_def list_all_iff)

lemma run_batch_keeps_inv:
  "engine_inv reg g handled s \<Longrightarrow> closed_under_sources (graph_edges g) handled \<Longrightarrow>
   sources_first (graph_edges g) handled xs \<Longrightarrow> set xs \<subseteq> set (instance_ids g) \<Longrightarrow>
   types_resolve reg g \<Longrightarrow>
     \<exists>s'. run_batch reg g xs s = (None, s') \<and> engine_inv reg g (handled @ xs) s'"
proof (induction xs arbitrary: handled s)
  case Nil
  then show ?case by simp
next
  case (Cons x xs)
  from Cons.prems(3) have x: "x \<notin> set handled"
    and src: "list_all (\<lambda>e. target_instance_id e = x \<longrightarrow> source_instance_id e \<in> set handled)
               (graph_edges g)"
    and rest: "sources_first (graph_edges g) (handled @ [x]) xs"
    by simp_all
  from Cons.prems(4) have ids: "x \<in> set (instance_ids g)" and sub: "set xs \<subseteq> set (instance_ids g)"
    by simp_all
  from run_instance_keeps_inv [OF Cons.prems(1,2) x src ids Cons.prems(5)]
  obtain s1 where s1: "run_instance reg g x s = (None, s1)"
    and inv1: "engine_inv reg g (handled @ [x]) s1" by blast
  from Cons.IH [OF inv1 closed_under_sources_snoc [OF Cons.prems(2) src] rest sub Cons.prems(5)]
  obtain s' where "run_batch reg g xs s1 = (None, s')" "engine_inv reg g ((handled @ [x]) @ xs) s'"
    by blast
  with s1 show ?case by simp
qed

lemma run_batch_append:
  "run_batch reg g (xs @ ys) s =
     (case run_batch reg g xs s of
        (Some err, s') \<Rightarrow> (Some err, s')
      | (None, s') \<Rightarrow> run_batch reg g ys s')"
  by (induction xs arbitrary: s) (simp_all split: prod.splits option.splits)

lemma run_batches_concat: "run_batches reg g batches s = run_batch reg g (concat batches) s"
  by (induction batches arbitrary: s) (simp_all add: run_batch_append split: prod.splits option.splits)

lemma engine_inv_engine_runs:
  "engine_inv reg g handled (s\<lparr>engine_runs := k\<rparr>) = engine_inv reg g handled s"
  by (simp add: engine_inv_def)

lemma engine_inv_initial: "engine_inv reg g [] initial_state"
  by (simp add: engine_inv_def initial_state_def has_failed_def)

lemma run_instance_engine_runs:
  "engine_runs (snd (run_instance reg g i s)) = engine_runs s"
  by (simp add: run_instance_def split: option.splits sum.splits)

lemma run_batch_engine_runs:
  "engine_runs (snd (run_batch reg g xs s)) = engine_runs s"
proof (induction xs arbitrary: s)
  case Nil
  show ?case by simp
next
  case (Cons x xs)
  obtain err s1 where r: "run_instance reg g x s = (err, s1)" by (cases "run_instance reg g x s")
  with run_instance_engine_runs [of reg g x s] have e: "engine_runs s1 = engine_runs s" by simp
  show ?case
  proof (cases err)
    case None
    with r e Cons.IH [of s1] show ?thesis by simp
  next
    case (Some a)
    with r e show ?thesis by simp
  qed
qed

lemma run_engine_runs:
  "engine_runs (snd (run reg g batches s)) = Suc (engine_runs s)"
  by (simp add: run_def run_batches_concat run_batch_engine_runs)

lemma run_order_inv:
  assumes "well_formed_graph g" and "acyclic (dependency (graph_edges g))"
    and "types_resolve reg g"
  shows "\<exists>batches s. order g = Inr batches \<and> run reg g batches initial_state = (None, s)
           \<and> engine_inv reg g (concat batches) s
           \<and> set (concat batches) = set (instance_ids g)"
proof -
  let ?es = "graph_edges g" and ?ids = "instance_ids g"
  let ?s0 = "initial_state\<lparr>engine_runs := Suc (engine_runs initial_state)\<rparr>"
  from assms(1) have er: "endpoints_resolve g" and dist: "distinct ?ids"
    by (simp_all add: well_formed_graph_def)
  from order_acyclic_returns [OF er assms(2)] obtain bs where bs: "order g = Inr bs" by blast
  then have k: "kahn ?es (pending_in_degree ?es (set [])) ?ids = Inr bs"
    by (simp add: order_def in_degree_pending)
  from kahn_partition [OF k] have part: "set (concat bs) = set ?ids" by simp
  from kahn_sources_first [OF k refl _ dist] have sf: "sources_first ?es [] (concat bs)" by simp
  have cl: "closed_under_sources ?es []" by (simp add: closed_under_sources_def list_all_iff)
  from part have sub: "set (concat bs) \<subseteq> set ?ids" by simp
  have inv0: "engine_inv reg g [] ?s0"
    unfolding engine_inv_engine_runs by (rule engine_inv_initial)
  from run_batch_keeps_inv [OF inv0 cl sf sub assms(3)]
  obtain s where "run_batch reg g (concat bs) ?s0 = (None, s)"
    "engine_inv reg g (concat bs) s" by auto
  with bs part show ?thesis by (auto simp: run_def run_batches_concat)
qed

subsection \<open>The engine on the graphs of the examples\<close>

lemma example_registry_types:
  "types_resolve example_node_registry example_graph"
  "types_resolve example_node_registry failing_graph"
  by (simp_all add: types_resolve_def example_node_registry_def example_graph_def failing_graph_def)

lemma failing_graph_descendants:
  "''B'' \<in> descendants failing_graph ''A''"
  "''C'' \<in> descendants failing_graph ''A''"
  "''D'' \<in> descendants failing_graph ''A''"
proof -
  let ?r = "dependency (graph_edges failing_graph)"
  have ab: "(''A'', ''B'') \<in> ?r" and bc: "(''B'', ''C'') \<in> ?r" and bd: "(''B'', ''D'') \<in> ?r"
    by (simp_all add: dependency_def failing_graph_def)
  from ab have 1: "(''A'', ''B'') \<in> ?r\<^sup>+" by (rule r_into_trancl)
  from 1 bc have 2: "(''A'', ''C'') \<in> ?r\<^sup>+" by (rule trancl_into_trancl)
  from 1 bd have 3: "(''A'', ''D'') \<in> ?r\<^sup>+" by (rule trancl_into_trancl)
  from 1 show "''B'' \<in> descendants failing_graph ''A''" by (simp add: descendants_def)
  from 2 show "''C'' \<in> descendants failing_graph ''A''" by (simp add: descendants_def)
  from 3 show "''D'' \<in> descendants failing_graph ''A''" by (simp add: descendants_def)
qed

lemma run_failing_graph_A:
  "run_instance example_node_registry failing_graph ''A''
       (initial_state\<lparr>engine_runs := Suc (engine_runs initial_state)\<rparr>) =
     (None,
      \<lparr>results = [''A'' \<mapsto> \<lparr>outputs = [], status = Failed ''boom''\<rparr>],
       skipped = descendants failing_graph ''A'',
       invocations = [(''A'', [])],
       engine_runs = 1\<rparr>)"
  by (simp add: run_instance_def initial_state_def find_instance_def failing_graph_def
      example_node_registry_def failing_node_def resolve_inputs_def resolve_parameter_def
      supplying_edge_def)

lemma run_instance_skipped: "i \<in> skipped s \<Longrightarrow> run_instance reg g i s = (None, s)"
  by (simp add: run_instance_def)

lemma run_failing_graph:
  "run example_node_registry failing_graph [[''A''], [''B''], [''C'', ''D'']] initial_state =
     (None,
      \<lparr>results = [''A'' \<mapsto> \<lparr>outputs = [], status = Failed ''boom''\<rparr>],
       skipped = descendants failing_graph ''A'',
       invocations = [(''A'', [])],
       engine_runs = 1\<rparr>)"
  by (simp add: run_def run_failing_graph_A run_instance_skipped failing_graph_descendants)

lemma execute_failing_graph:
  "execute_graph no_violations example_node_registry failing_graph =
     ([],
      \<lparr>results = [''A'' \<mapsto> \<lparr>outputs = [], status = Failed ''boom''\<rparr>],
       skipped = descendants failing_graph ''A'',
       invocations = [(''A'', [])],
       engine_runs = 1\<rparr>)"
  unfolding execute_graph_def no_violations_def list.case order_failing_graph sum.case
    run_failing_graph
  by simp

lemma out_degree_failing_graph_B: "out_degree failing_graph ''B'' = 2"
  by (simp add: out_degree_def failing_graph_def)

lemma run_example_graph:
  "run example_node_registry example_graph [[''A''], [''B'', ''C'']] initial_state =
     (None,
      \<lparr>results = [''A'' \<mapsto> \<lparr>outputs = [(''out'', PInt 5)], status = Success\<rparr>,
                  ''B'' \<mapsto> \<lparr>outputs = [(''out'', PInt 20)], status = Success\<rparr>,
                  ''C'' \<mapsto> \<lparr>outputs = [(''out'', PInt 50)], status = Success\<rparr>],
       skipped = {},
       invocations = [(''A'', [(''x'', PInt 2), (''y'', PInt 3)]),
                      (''B'', [(''x'', PInt 5), (''y'', PInt 4)]),
                      (''C'', [(''x'', PInt 5), (''y'', PInt 10)])],
       engine_runs = 1\<rparr>)"
  by (simp add: run_def run_instance_def initial_state_def find_instance_def example_graph_def
      example_node_registry_def binary_node_def resolve_inputs_def resolve_parameter_def
      supplying_edge_def read_output_def)

lemma run_half_graph:
  "run example_node_registry half_graph [[''A''], [''B'']] initial_state =
     (Some (InternalError ''unknown node type nowhere''),
      \<lparr>results = [''A'' \<mapsto> \<lparr>outputs = [(''out'', PInt 5)], status = Success\<rparr>],
       skipped = {},
       invocations = [(''A'', [(''x'', PInt 2), (''y'', PInt 3)])],
       engine_runs = 1\<rparr>)"
  by (simp add: run_def run_instance_def initial_state_def find_instance_def half_graph_def
      example_node_registry_def binary_node_def resolve_inputs_def resolve_parameter_def
      supplying_edge_def read_output_def)

text \<open>
  What an execution has done is read from the state of the engine, also when the engine
  aborts the run: in \<open>half_graph\<close> the instance \<open>A\<close> is invoked and has its result, then
  the type of \<open>B\<close> does not resolve, and the outcome is the \<open>InternalError\<close> with the one
  call of the engine, the one invocation of \<open>A\<close> and its result.
\<close>

lemma aborted_run_keeps_its_record:
  "fst (execute_graph no_violations example_node_registry half_graph) =
     [InternalError ''unknown node type nowhere'']
   \<and> engine_calls (execute_graph no_violations example_node_registry half_graph) = 1
   \<and> invocation_count (execute_graph no_violations example_node_registry half_graph) ''A'' = 1
   \<and> produced_result (execute_graph no_violations example_node_registry half_graph) ''A'' =
       Some \<lparr>outputs = [(''out'', PInt 5)], status = Success\<rparr>"
  unfolding execute_graph_def no_violations_def list.case order_half_graph sum.case
    run_half_graph
  by (simp add: engine_calls_def invocation_count_def produced_result_def)

text \<open>
  In \<open>failing_graph\<close> the instance \<open>B\<close> feeds two consumers, and the run of the graph, which
  completes, never invokes it and has no result for it: the instance \<open>A\<close> it depends on
  is invoked once and fails, so \<open>B\<close> is skipped.
\<close>

theorem skipped_fan_out_never_invoked:
  "fst (execute_graph no_violations example_node_registry failing_graph) = []
   \<and> 2 \<le> out_degree failing_graph ''B''
   \<and> invocation_count (execute_graph no_violations example_node_registry failing_graph) ''B'' = 0
   \<and> produced_result (execute_graph no_violations example_node_registry failing_graph) ''B'' = None
   \<and> invocation_count (execute_graph no_violations example_node_registry failing_graph) ''A'' = 1
   \<and> produced_result (execute_graph no_violations example_node_registry failing_graph) ''A'' =
       Some \<lparr>outputs = [], status = Failed ''boom''\<rparr>"
  unfolding execute_failing_graph
  by (simp add: out_degree_failing_graph_B invocation_count_def produced_result_def)

subsection \<open>Single evaluation and the values that consumers read\<close>

lemma invoked_consumer_reads_result:
  assumes inv: "engine_inv reg g handled s"
    and t: "(t, inputs) \<in> set (invocations s)"
    and sup: "supplied_by reg g t e"
  shows "map_of inputs (target_port e) = read_output (results s) e"
proof -
  from bspec [OF engine_inv_inputs [OF inv] t]
  obtain n d where n: "find_instance g t = Some n" and d: "reg (type_id n) = Some d"
    and i: "inputs = resolve_inputs g (results s) d n"
    by auto
  from sup n d have p: "target_port e \<in> set (map name (params d))"
    and lit: "map_of (parameters n) (target_port e) = None"
    and se: "supplying_edge g n (target_port e) = Some e"
    by (simp_all add: supplied_by_def)
  from map_of_resolve_all [OF se lit, of "results s" "params d"] p i
  show ?thesis by (simp add: resolve_inputs_def)
qed

lemma read_output_same_port:
  "source_instance_id e1 = source_instance_id e2 \<Longrightarrow> source_port e1 = source_port e2 \<Longrightarrow>
     read_output res e1 = read_output res e2"
  by (simp add: read_output_def split: option.splits)

lemma count_list_pos_in: "count_list xs i \<noteq> 0 \<Longrightarrow> i \<in> set xs"
  by (induction xs) (auto split: if_splits)

lemma invoked_once_with_resolved_inputs:
  assumes inv: "engine_inv reg g handled s" and i: "i \<in> set handled" and nsk: "i \<notin> skipped s"
  shows "\<exists>n d. find_instance g i = Some n \<and> reg (type_id n) = Some d
             \<and> (i, resolve_inputs g (results s) d n) \<in> set (invocations s)
             \<and> results s i = Some (result_of (execute d (resolve_inputs g (results s) d n)))"
proof -
  from bspec [OF engine_inv_count [OF inv] i] nsk
  have "count_list (map fst (invocations s)) i \<noteq> 0" by simp
  then have "i \<in> set (map fst (invocations s))" by (rule count_list_pos_in)
  then obtain inputs where m: "(i, inputs) \<in> set (invocations s)" by auto
  from bspec [OF engine_inv_inputs [OF inv] m]
  obtain n d where "find_instance g i = Some n" "reg (type_id n) = Some d"
    "inputs = resolve_inputs g (results s) d n"
    "results s i = Some (result_of (execute d inputs))"
    by auto
  with m show ?thesis by blast
qed

lemma skipped_iff_failed_ancestor:
  assumes inv: "engine_inv reg g handled s"
  shows "(i \<in> skipped s) = (\<exists>x\<in>set handled. has_failed (results s) x \<and> i \<in> descendants g x)"
proof -
  have "has_failed (results s) x \<Longrightarrow> x \<in> set handled" for x
    using has_failed_dom [of "results s" x] engine_inv_results [OF inv] by blast
  then show ?thesis
    unfolding engine_inv_skipped [OF inv] by auto
qed

text \<open>
  Claim C3, amended. In every run of the engine on a well-formed acyclic graph whose node
  types resolve, the engine is called once and the run completes. An instance is skipped
  exactly when an instance it transitively depends on has failed. Every instance,
  whatever its out-degree, is invoked exactly once unless it is skipped, and then it is
  never invoked and has no result. An instance that is not skipped was invoked with the
  inputs resolved for it, and its result is what its execution function returned for
  them, so it has failed exactly when the function returned an error. In a run in which
  no instance has failed every instance is invoked exactly once. Every invoked consumer
  reads, for a parameter supplied by an edge, the value that the final result mapping
  holds for the source port of the edge: a result is written once and not changed, so all
  invoked consumers of one output port read identical values.
\<close>

theorem engine_invokes_once_unless_skipped:
  assumes "well_formed_graph g" and "acyclic (dependency (graph_edges g))"
    and "types_resolve reg g"
  shows "\<exists>batches s.
           order g = Inr batches
         \<and> run reg g batches initial_state = (None, s)
         \<and> (validate g = [] \<longrightarrow> execute_graph validate reg g = ([], s))
         \<and> engine_runs s = 1
         \<and> (\<forall>i\<in>set (instance_ids g).
               (i \<in> skipped s) =
                 (\<exists>x\<in>set (instance_ids g). has_failed (results s) x \<and> i \<in> descendants g x))
         \<and> (\<forall>i\<in>set (instance_ids g).
               count_list (map fst (invocations s)) i = (if i \<in> skipped s then 0 else 1))
         \<and> (\<forall>i\<in>set (instance_ids g). (i \<in> skipped s) = (results s i = None))
         \<and> (\<forall>i\<in>set (instance_ids g). i \<notin> skipped s \<longrightarrow>
               (\<exists>n d. find_instance g i = Some n \<and> reg (type_id n) = Some d
                    \<and> (i, resolve_inputs g (results s) d n) \<in> set (invocations s)
                    \<and> results s i =
                        Some (result_of (execute d (resolve_inputs g (results s) d n)))))
         \<and> ((\<forall>x\<in>set (instance_ids g). \<not> has_failed (results s) x) \<longrightarrow>
               (\<forall>i\<in>set (instance_ids g). count_list (map fst (invocations s)) i = 1))
         \<and> (\<forall>(t, inputs)\<in>set (invocations s). \<forall>e\<in>set (graph_edges g).
               supplied_by reg g t e \<longrightarrow>
                 map_of inputs (target_port e) = read_output (results s) e)
         \<and> (\<forall>(t1, in1)\<in>set (invocations s). \<forall>(t2, in2)\<in>set (invocations s).
             \<forall>e1\<in>set (graph_edges g). \<forall>e2\<in>set (graph_edges g).
               supplied_by reg g t1 e1 \<and> supplied_by reg g t2 e2
               \<and> source_instance_id e1 = source_instance_id e2
               \<and> source_port e1 = source_port e2 \<longrightarrow>
                 map_of in1 (target_port e1) = map_of in2 (target_port e2))"
proof -
  from run_order_inv [OF assms] obtain batches s where
    o: "order g = Inr batches" and r: "run reg g batches initial_state = (None, s)"
    and inv: "engine_inv reg g (concat batches) s"
    and ids: "set (concat batches) = set (instance_ids g)"
    by blast
  from o r have ex: "validate g = [] \<longrightarrow> execute_graph validate reg g = ([], s)"
    by (simp add: execute_graph_def)
  from run_engine_runs [of reg g batches initial_state] r
  have runs: "engine_runs s = 1" by (simp add: initial_state_def)
  have skp: "\<forall>i\<in>set (instance_ids g).
               (i \<in> skipped s) =
                 (\<exists>x\<in>set (instance_ids g). has_failed (results s) x \<and> i \<in> descendants g x)"
    using skipped_iff_failed_ancestor [OF inv] unfolding ids by blast
  have cnt: "\<forall>i\<in>set (instance_ids g).
      count_list (map fst (invocations s)) i = (if i \<in> skipped s then 0 else 1)"
    using engine_inv_count [OF inv] unfolding ids .
  have sk: "\<forall>i\<in>set (instance_ids g). (i \<in> skipped s) = (results s i = None)"
    using engine_inv_no_result [OF inv] unfolding ids .
  have once: "\<forall>i\<in>set (instance_ids g). i \<notin> skipped s \<longrightarrow>
               (\<exists>n d. find_instance g i = Some n \<and> reg (type_id n) = Some d
                    \<and> (i, resolve_inputs g (results s) d n) \<in> set (invocations s)
                    \<and> results s i =
                        Some (result_of (execute d (resolve_inputs g (results s) d n))))"
  proof (intro ballI impI)
    fix i assume "i \<in> set (instance_ids g)" and nsk: "i \<notin> skipped s"
    then have "i \<in> set (concat batches)" unfolding ids by simp
    from invoked_once_with_resolved_inputs [OF inv this nsk]
    show "\<exists>n d. find_instance g i = Some n \<and> reg (type_id n) = Some d
                    \<and> (i, resolve_inputs g (results s) d n) \<in> set (invocations s)
                    \<and> results s i =
                        Some (result_of (execute d (resolve_inputs g (results s) d n)))" .
  qed
  have nofail: "(\<forall>x\<in>set (instance_ids g). \<not> has_failed (results s) x) \<longrightarrow>
               (\<forall>i\<in>set (instance_ids g). count_list (map fst (invocations s)) i = 1)"
  proof (intro impI ballI)
    fix i assume nf: "\<forall>x\<in>set (instance_ids g). \<not> has_failed (results s) x"
      and i: "i \<in> set (instance_ids g)"
    from skp i nf have "i \<notin> skipped s" by blast
    with cnt i show "count_list (map fst (invocations s)) i = 1" by simp
  qed
  have rd: "\<forall>(t, inputs)\<in>set (invocations s). \<forall>e\<in>set (graph_edges g).
               supplied_by reg g t e \<longrightarrow>
                 map_of inputs (target_port e) = read_output (results s) e"
    using invoked_consumer_reads_result [OF inv] by blast
  have same: "\<forall>(t1, in1)\<in>set (invocations s). \<forall>(t2, in2)\<in>set (invocations s).
             \<forall>e1\<in>set (graph_edges g). \<forall>e2\<in>set (graph_edges g).
               supplied_by reg g t1 e1 \<and> supplied_by reg g t2 e2
               \<and> source_instance_id e1 = source_instance_id e2
               \<and> source_port e1 = source_port e2 \<longrightarrow>
                 map_of in1 (target_port e1) = map_of in2 (target_port e2)"
  proof (intro ballI, clarify)
    fix t1 in1 t2 in2 e1 e2
    assume a: "(t1, in1) \<in> set (invocations s)" "(t2, in2) \<in> set (invocations s)"
      "supplied_by reg g t1 e1" "supplied_by reg g t2 e2"
      "source_instance_id e1 = source_instance_id e2" "source_port e1 = source_port e2"
    from invoked_consumer_reads_result [OF inv a(1,3)]
      invoked_consumer_reads_result [OF inv a(2,4)]
      read_output_same_port [OF a(5,6), of "results s"]
    show "map_of in1 (target_port e1) = map_of in2 (target_port e2)" by simp
  qed
  from o r ex runs skp cnt sk once nofail rd same show ?thesis
    by (intro exI conjI)
qed

theorem engine_invokes_once_unless_skipped_witness:
  "well_formed_graph example_graph
   \<and> acyclic (dependency (graph_edges example_graph))
   \<and> types_resolve example_node_registry example_graph
   \<and> out_degree example_graph ''A'' = 2
   \<and> fst (execute_graph no_violations example_node_registry example_graph) = []
   \<and> engine_calls (execute_graph no_violations example_node_registry example_graph) = 1
   \<and> invocation_count (execute_graph no_violations example_node_registry example_graph) ''A'' = 1
   \<and> produced_result (execute_graph no_violations example_node_registry example_graph) ''B'' =
       Some \<lparr>outputs = [(''out'', PInt 20)], status = Success\<rparr>
   \<and> supplied_by example_node_registry example_graph ''B''
         \<lparr>source_instance_id = ''A'', source_port = ''out'',
          target_instance_id = ''B'', target_port = ''x''\<rparr>
   \<and> supplied_by example_node_registry example_graph ''C''
         \<lparr>source_instance_id = ''A'', source_port = ''out'',
          target_instance_id = ''C'', target_port = ''x''\<rparr>
   \<and> map_of [(''x'', PInt 5), (''y'', PInt 4)] ''x'' = map_of [(''x'', PInt 5), (''y'', PInt 10)] ''x''
   \<and> well_formed_graph failing_graph
   \<and> acyclic (dependency (graph_edges failing_graph))
   \<and> types_resolve example_node_registry failing_graph
   \<and> ''B'' \<in> skipped (snd (execute_graph no_violations example_node_registry failing_graph))
   \<and> has_failed (results (snd (execute_graph no_violations example_node_registry failing_graph))) ''A''
   \<and> ''B'' \<in> descendants failing_graph ''A''
   \<and> invocation_count (execute_graph no_violations example_node_registry failing_graph) ''B'' = 0
   \<and> invocation_count (execute_graph no_violations example_node_registry failing_graph) ''A'' = 1"
proof -
  let ?ab = "\<lparr>source_instance_id = ''A'', source_port = ''out'',
              target_instance_id = ''B'', target_port = ''x''\<rparr>"
  let ?ac = "\<lparr>source_instance_id = ''A'', source_port = ''out'',
              target_instance_id = ''C'', target_port = ''x''\<rparr>"
  let ?out = "execute_graph no_violations example_node_registry example_graph"
  let ?fout = "execute_graph no_violations example_node_registry failing_graph"
  from engine_invokes_once_unless_skipped
    [OF example_graph_well_formed example_graph_acyclic example_registry_types(1),
     of no_violations]
  obtain batches s where o: "order example_graph = Inr batches"
    and r: "run example_node_registry example_graph batches initial_state = (None, s)"
    and ex: "no_violations example_graph = [] \<longrightarrow>
               execute_graph no_violations example_node_registry example_graph = ([], s)"
    and runs: "engine_runs s = 1"
    and nofail: "(\<forall>x\<in>set (instance_ids example_graph). \<not> has_failed (results s) x) \<longrightarrow>
               (\<forall>i\<in>set (instance_ids example_graph). count_list (map fst (invocations s)) i = 1)"
    and same: "\<forall>(t1, in1)\<in>set (invocations s). \<forall>(t2, in2)\<in>set (invocations s).
             \<forall>e1\<in>set (graph_edges example_graph). \<forall>e2\<in>set (graph_edges example_graph).
               supplied_by example_node_registry example_graph t1 e1
               \<and> supplied_by example_node_registry example_graph t2 e2
               \<and> source_instance_id e1 = source_instance_id e2
               \<and> source_port e1 = source_port e2 \<longrightarrow>
                 map_of in1 (target_port e1) = map_of in2 (target_port e2)"
    by (elim exE conjE)
  from o have b: "batches = [[''A''], [''B'', ''C'']]" by (simp add: order_example_graph)
  from r have s: "s = \<lparr>results = [''A'' \<mapsto> \<lparr>outputs = [(''out'', PInt 5)], status = Success\<rparr>,
                     ''B'' \<mapsto> \<lparr>outputs = [(''out'', PInt 20)], status = Success\<rparr>,
                     ''C'' \<mapsto> \<lparr>outputs = [(''out'', PInt 50)], status = Success\<rparr>],
          skipped = {},
          invocations = [(''A'', [(''x'', PInt 2), (''y'', PInt 3)]),
                         (''B'', [(''x'', PInt 5), (''y'', PInt 4)]),
                         (''C'', [(''x'', PInt 5), (''y'', PInt 10)])],
          engine_runs = 1\<rparr>"
    unfolding b run_example_graph by simp
  from ex have e: "?out = ([], s)"
    by (simp add: no_violations_def)
  then have e1: "fst ?out = []" by simp
  from e runs have e2: "engine_calls ?out = 1" by (simp add: engine_calls_def)
  have "\<forall>x\<in>set (instance_ids example_graph). \<not> has_failed (results s) x"
    by (simp add: s instance_ids_def example_graph_def has_failed_def)
  with nofail have "\<forall>i\<in>set (instance_ids example_graph). count_list (map fst (invocations s)) i = 1"
    by (rule mp)
  moreover have "''A'' \<in> set (instance_ids example_graph)"
    by (simp add: instance_ids_def example_graph_def)
  ultimately have "count_list (map fst (invocations s)) ''A'' = 1" by (rule bspec)
  then have c: "invocation_count ?out ''A'' = 1"
    by (simp add: e invocation_count_def)
  have p: "produced_result ?out ''B'' = Some \<lparr>outputs = [(''out'', PInt 20)], status = Success\<rparr>"
    by (simp add: e produced_result_def s)
  have d: "out_degree example_graph ''A'' = 2"
    by (simp add: out_degree_def example_graph_def)
  have sb: "supplied_by example_node_registry example_graph ''B'' ?ab"
    and sc: "supplied_by example_node_registry example_graph ''C'' ?ac"
    by (simp_all add: supplied_by_def find_instance_def example_graph_def
        example_node_registry_def binary_node_def supplying_edge_def)
  have eb: "?ab \<in> set (graph_edges example_graph)"
    and ec: "?ac \<in> set (graph_edges example_graph)"
    by (simp_all add: example_graph_def)
  have mb: "(''B'', [(''x'', PInt 5), (''y'', PInt 4)]) \<in> set (invocations s)"
    and mc: "(''C'', [(''x'', PInt 5), (''y'', PInt 10)]) \<in> set (invocations s)"
    by (simp_all add: s)
  from bspec [OF same mb]
  have "\<forall>(t2, in2)\<in>set (invocations s).
             \<forall>e1\<in>set (graph_edges example_graph). \<forall>e2\<in>set (graph_edges example_graph).
               supplied_by example_node_registry example_graph ''B'' e1
               \<and> supplied_by example_node_registry example_graph t2 e2
               \<and> source_instance_id e1 = source_instance_id e2
               \<and> source_port e1 = source_port e2 \<longrightarrow>
                 map_of [(''x'', PInt 5), (''y'', PInt 4)] (target_port e1) = map_of in2 (target_port e2)"
    by simp
  from bspec [OF this mc]
  have "\<forall>e1\<in>set (graph_edges example_graph). \<forall>e2\<in>set (graph_edges example_graph).
               supplied_by example_node_registry example_graph ''B'' e1
               \<and> supplied_by example_node_registry example_graph ''C'' e2
               \<and> source_instance_id e1 = source_instance_id e2
               \<and> source_port e1 = source_port e2 \<longrightarrow>
                 map_of [(''x'', PInt 5), (''y'', PInt 4)] (target_port e1)
                   = map_of [(''x'', PInt 5), (''y'', PInt 10)] (target_port e2)"
    by simp
  from bspec [OF bspec [OF this eb] ec] sb sc
  have m: "map_of [(''x'', PInt 5), (''y'', PInt 4)] ''x'' = map_of [(''x'', PInt 5), (''y'', PInt 10)] ''x''"
    by simp
  from engine_invokes_once_unless_skipped
    [OF failing_graph_well_formed failing_graph_acyclic example_registry_types(2),
     of no_violations]
  obtain fbatches fs where fo: "order failing_graph = Inr fbatches"
    and fex: "no_violations failing_graph = [] \<longrightarrow>
               execute_graph no_violations example_node_registry failing_graph = ([], fs)"
    and fskp: "\<forall>i\<in>set (instance_ids failing_graph).
               (i \<in> skipped fs) =
                 (\<exists>x\<in>set (instance_ids failing_graph).
                     has_failed (results fs) x \<and> i \<in> descendants failing_graph x)"
    and fcnt: "\<forall>i\<in>set (instance_ids failing_graph).
               count_list (map fst (invocations fs)) i = (if i \<in> skipped fs then 0 else 1)"
    by (elim exE conjE)
  from fex have fe: "?fout = ([], fs)" by (simp add: no_violations_def)
  then have fs: "fs = \<lparr>results = [''A'' \<mapsto> \<lparr>outputs = [], status = Failed ''boom''\<rparr>],
       skipped = descendants failing_graph ''A'',
       invocations = [(''A'', [])],
       engine_runs = 1\<rparr>"
    unfolding execute_failing_graph by simp
  have fa: "has_failed (results fs) ''A''" by (simp add: fs has_failed_def)
  have ida: "''A'' \<in> set (instance_ids failing_graph)"
    and idb: "''B'' \<in> set (instance_ids failing_graph)"
    by (simp_all add: instance_ids_def failing_graph_def)
  from fa failing_graph_descendants(1) ida
  have "\<exists>x\<in>set (instance_ids failing_graph).
           has_failed (results fs) x \<and> ''B'' \<in> descendants failing_graph x"
    by blast
  with bspec [OF fskp idb] have bsk: "''B'' \<in> skipped fs" by (rule iffD2)
  from bspec [OF fcnt idb] bsk have cb: "count_list (map fst (invocations fs)) ''B'' = 0"
    by simp
  have "''A'' \<notin> skipped fs"
  proof
    assume "''A'' \<in> skipped fs"
    with bspec [OF fskp ida]
    obtain x where "has_failed (results fs) x" "''A'' \<in> descendants failing_graph x" by blast
    then have "''A'' \<in> descendants failing_graph ''A''"
      by (cases "x = ''A''") (simp_all add: fs has_failed_def)
    then have "(''A'', ''A'') \<in> (dependency (graph_edges failing_graph))\<^sup>+"
      by (simp add: descendants_def)
    with failing_graph_acyclic show False by (simp add: acyclic_def)
  qed
  with bspec [OF fcnt ida] have ca: "count_list (map fst (invocations fs)) ''A'' = 1"
    by simp
  from bsk have f1: "''B'' \<in> skipped (snd ?fout)" by (simp add: fe)
  from fa have f2: "has_failed (results (snd ?fout)) ''A''" by (simp add: fe)
  from cb have f3: "invocation_count ?fout ''B'' = 0" by (simp add: fe invocation_count_def)
  from ca have f4: "invocation_count ?fout ''A'' = 1" by (simp add: fe invocation_count_def)
  from example_graph_well_formed example_graph_acyclic example_registry_types(1) d e1 e2 c p
    sb sc m failing_graph_well_formed failing_graph_acyclic example_registry_types(2)
    f1 f2 failing_graph_descendants(1) f3 f4
  show ?thesis by (intro conjI)
qed

end
